theory Spec2Isabelle
  imports Main "HOL-Library.Word"
begin

unbundle bit_operations_syntax

section \<open>The encoder\<close>

subsection \<open>Data model\<close>

text \<open>
  C types: \<open>char\<close> and \<open>uint8_t\<close> are 8-bit words, \<open>int\<close> is a 32-bit word,
  \<open>uint64_t\<close> a 64-bit word. Values of type \<open>size_t\<close> that count bytes or array
  entries of the encoder (buffer size, capacities, label offsets, relocation offsets) are
  natural numbers: they are bounded by the address space and never wrap. Every narrowing
  conversion of the source (\<open>size_t\<close> to \<open>int\<close>, \<open>intptr_t\<close> to \<open>int32_t\<close>,
  \<open>int\<close> to \<open>char\<close>) is written out.
\<close>

type_synonym byte = "8 word"
type_synonym c_int = "32 word"

text \<open>\<open>struct x86_relocation\<close>: \<open>size_t offset; int label; int relative;\<close>\<close>

record x86_relocation =
  offset :: nat
  label :: c_int
  relative :: c_int

text \<open>
  \<open>struct x86_encoder\<close>. The three arrays are lists holding the entries in use, so that
  \<open>buffer_size\<close>, \<open>labels_size\<close> and \<open>relocations_size\<close> are their lengths; the
  capacities are kept as the source keeps them.
\<close>

record x86_encoder =
  buffer :: "byte list"
  buffer_capacity :: nat
  labels :: "nat list"
  labels_capacity :: nat
  relocations :: "x86_relocation list"
  relocations_capacity :: nat

definition buffer_size :: "x86_encoder \<Rightarrow> nat" where
  "buffer_size enc = length (buffer enc)"

definition labels_size :: "x86_encoder \<Rightarrow> nat" where
  "labels_size enc = length (labels enc)"

definition relocations_size :: "x86_encoder \<Rightarrow> nat" where
  "relocations_size enc = length (relocations enc)"

text \<open>The encoder after \<open>memset(&enc, 0, sizeof enc)\<close>.\<close>

definition x86_encoder_zero :: x86_encoder where
  "x86_encoder_zero =
     \<lparr>buffer = [], buffer_capacity = 0, labels = [], labels_capacity = 0,
      relocations = [], relocations_capacity = 0\<rparr>"

subsection \<open>Constants and macros\<close>

definition X86_CALL_REL32 :: byte where "X86_CALL_REL32 = 0xE8"
definition X86_JMP_REL32 :: byte where "X86_JMP_REL32 = 0xE9"
definition X86_0F :: byte where "X86_0F = 0x0F"
definition X86_RET :: byte where "X86_RET = 0xC3"
definition X86_NOP :: byte where "X86_NOP = 0x90"
definition X86_OPERAND_SIZE_OVERRIDE :: byte where "X86_OPERAND_SIZE_OVERRIDE = 0x66"
definition X86_FF_MODRM :: byte where "X86_FF_MODRM = 0xFF"
definition X86_FF_MODRM_CALL :: byte where "X86_FF_MODRM_CALL = 0x2"
definition X86_FF_MODRM_JMP :: byte where "X86_FF_MODRM_JMP = 0x4"
definition X86_CMP_MODRM :: byte where "X86_CMP_MODRM = 0x39"

definition X86_REX :: byte where "X86_REX = 0x40"
definition X86_REX_B :: byte where "X86_REX_B = 0x1"
definition X86_REX_X :: byte where "X86_REX_X = 0x2"
definition X86_REX_R :: byte where "X86_REX_R = 0x4"
definition X86_REX_W :: byte where "X86_REX_W = 0x8"

text \<open>\<open>X86_0F_JMP_COND_REL32(x)\<close> is \<open>0x80 + x\<close> in \<open>int\<close>.\<close>

definition X86_0F_JMP_COND_REL32 :: "c_int \<Rightarrow> c_int" where
  "X86_0F_JMP_COND_REL32 x = 0x80 + x"

definition X86_MOV_REG_IMM_LONG :: "byte \<Rightarrow> byte" where
  "X86_MOV_REG_IMM_LONG x = 0xB8 + x"

definition X86_MOV_REG_IMM_LOW :: "byte \<Rightarrow> byte" where
  "X86_MOV_REG_IMM_LOW x = 0xB0 + x"

definition X86_PUSH_REG :: "byte \<Rightarrow> byte" where
  "X86_PUSH_REG x = 0x50 + x"

definition X86_POP_REG :: "byte \<Rightarrow> byte" where
  "X86_POP_REG x = 0x58 + x"

text \<open>
  \<open>X86_REX_FIELD(b,x,r,w)\<close>: each argument is a C expression tested for being nonzero;
  the callers' tests are passed as booleans.
\<close>

definition X86_REX_FIELD :: "bool \<Rightarrow> bool \<Rightarrow> bool \<Rightarrow> bool \<Rightarrow> byte" where
  "X86_REX_FIELD b x r w =
     X86_REX OR (if b then X86_REX_B else 0) OR (if x then X86_REX_X else 0)
       OR (if r then X86_REX_R else 0) OR (if w then X86_REX_W else 0)"

text \<open>
  \<open>struct x86_modrm\<close> is a packed bit-field \<open>rm : 3; reg : 3; mod : 2\<close>. In the x86-64
  System V layout the first field takes the least significant bits of the byte. Storing
  into a bit-field keeps the low bits of the value stored.
\<close>

record x86_modrm =
  rm :: byte
  reg :: byte
  mod_field :: byte

definition modrm_byte :: "x86_modrm \<Rightarrow> byte" where
  "modrm_byte m =
     take_bit 3 (rm m) OR push_bit 3 (take_bit 3 (reg m)) OR push_bit 6 (take_bit 2 (mod_field m))"

text \<open>Little-endian stores of a word of \<open>n\<close> bytes.\<close>

fun le_bytes :: "nat \<Rightarrow> 'a::len word \<Rightarrow> byte list" where
  "le_bytes 0 w = []"
| "le_bytes (Suc n) w = ucast w # le_bytes n (drop_bit 8 w)"

subsection \<open>Buffer, labels and relocations\<close>

text \<open>\<open>x86_encoder_check_buffer\<close>: grows the capacity; the bytes in use are unchanged.\<close>

definition x86_encoder_check_buffer :: "x86_encoder \<Rightarrow> nat \<Rightarrow> x86_encoder" where
  "x86_encoder_check_buffer enc required =
     (if buffer_size enc + required > buffer_capacity enc
      then enc\<lparr>buffer_capacity := buffer_capacity enc + (required + 1024)\<rparr>
      else enc)"

text \<open>
  The emitters write with \<open>ENC_X(enc, p)\<close> at \<open>buffer_size + p\<close> for \<open>p = 0, 1, ...\<close>
  and then \<open>ENC_ADVANCE\<close> over what they wrote: the bytes are appended.
\<close>

definition enc_append :: "x86_encoder \<Rightarrow> byte list \<Rightarrow> x86_encoder" where
  "enc_append enc bs = enc\<lparr>buffer := buffer enc @ bs\<rparr>"

text \<open>
  \<open>x86_encoder_move_label\<close> stores into \<open>labels[label]\<close> with no check. A store at or
  beyond \<open>labels_capacity\<close> is outside the allocation and has no defined behaviour
  (\<open>None\<close>). A store in \<open>[labels_size, labels_capacity)\<close> hits a slot that is not in use,
  which \<open>x86_encoder_add_label\<close> overwrites when it takes the slot into use: the labels
  in use are unchanged, as \<open>list_update\<close> leaves them.
\<close>

definition x86_encoder_move_label :: "x86_encoder \<Rightarrow> nat \<Rightarrow> x86_encoder option" where
  "x86_encoder_move_label enc lbl =
     (if lbl < labels_capacity enc
      then Some (enc\<lparr>labels := (labels enc)[lbl := buffer_size enc]\<rparr>)
      else None)"

text \<open>\<open>x86_encoder_add_label\<close> returns the new label id and the encoder.\<close>

definition x86_encoder_add_label :: "x86_encoder \<Rightarrow> nat \<times> x86_encoder" where
  "x86_encoder_add_label enc =
     (let nlabel = labels_size enc;
          enc1 = (if labels_size enc \<ge> labels_capacity enc
                  then enc\<lparr>labels_capacity := labels_capacity enc + 1024\<rparr> else enc)
      in (nlabel, enc1\<lparr>labels := labels enc1 @ [buffer_size enc1]\<rparr>))"

definition x86_encoder_add_relocation :: "x86_encoder \<Rightarrow> c_int \<Rightarrow> c_int \<Rightarrow> x86_encoder" where
  "x86_encoder_add_relocation enc lbl rel =
     (let enc1 = (if relocations_size enc \<ge> relocations_capacity enc
                  then enc\<lparr>relocations_capacity := relocations_capacity enc + 1024\<rparr> else enc)
      in enc1\<lparr>relocations := relocations enc1 @
                 [\<lparr>offset = buffer_size enc1, label = lbl, relative = rel\<rparr>]\<rparr>)"

subsection \<open>Emitters\<close>

text \<open>
  \<open>_x86_encoder_prepare_modrm_rex\<close> writes three bytes at the write position without
  advancing; the model returns the three bytes.
\<close>

definition x86_encoder_prepare_modrm_rex :: "byte \<Rightarrow> byte \<Rightarrow> byte \<Rightarrow> c_int \<Rightarrow> byte list" where
  "x86_encoder_prepare_modrm_rex opcode rm_r reg_r wide =
     [X86_REX_FIELD (rm_r AND 0x08 \<noteq> 0) False (reg_r AND 0x08 \<noteq> 0) (wide \<noteq> 0),
      opcode,
      modrm_byte \<lparr>rm = rm_r AND 0x07, reg = reg_r AND 0x07, mod_field = 0x03\<rparr>]"

definition x86_encoder_write_modrm_rex ::
  "x86_encoder \<Rightarrow> byte \<Rightarrow> byte \<Rightarrow> byte \<Rightarrow> c_int \<Rightarrow> x86_encoder" where
  "x86_encoder_write_modrm_rex enc opcode rm_r reg_r wide =
     enc_append (x86_encoder_check_buffer enc 3)
       (x86_encoder_prepare_modrm_rex opcode rm_r reg_r wide)"

text \<open>
  \<open>x86_encoder_write_jmp\<close>: the \<open>size_t\<close> label is converted to the \<open>int\<close> parameter
  of \<open>x86_encoder_add_relocation\<close>, which keeps its low 32 bits.
\<close>

definition x86_encoder_write_jmp :: "x86_encoder \<Rightarrow> c_int \<Rightarrow> nat \<Rightarrow> x86_encoder" where
  "x86_encoder_write_jmp enc call lbl =
     (let enc1 = x86_encoder_check_buffer enc 5;
          opcode = (if call \<noteq> 0 then X86_CALL_REL32 else X86_JMP_REL32);
          enc2 = enc_append enc1 [opcode];
          enc3 = x86_encoder_add_relocation enc2 (word_of_nat lbl) 1
      in enc_append enc3 (le_bytes 4 (0 :: 32 word)))"

definition x86_encoder_write_jmp_cond :: "x86_encoder \<Rightarrow> c_int \<Rightarrow> nat \<Rightarrow> x86_encoder" where
  "x86_encoder_write_jmp_cond enc cond lbl =
     (let enc1 = x86_encoder_check_buffer enc 6;
          enc2 = enc_append enc1 [X86_0F, ucast (X86_0F_JMP_COND_REL32 cond)];
          enc3 = x86_encoder_add_relocation enc2 (word_of_nat lbl) 1
      in enc_append enc3 (le_bytes 4 (0 :: 32 word)))"

definition x86_encoder_write_jmp_reg :: "x86_encoder \<Rightarrow> c_int \<Rightarrow> byte \<Rightarrow> x86_encoder" where
  "x86_encoder_write_jmp_reg enc call reg_r =
     x86_encoder_write_modrm_rex enc X86_FF_MODRM reg_r
       (if call \<noteq> 0 then X86_FF_MODRM_CALL else X86_FF_MODRM_JMP) 1"

definition x86_encoder_write_cmp_reg :: "x86_encoder \<Rightarrow> byte \<Rightarrow> byte \<Rightarrow> x86_encoder" where
  "x86_encoder_write_cmp_reg enc reg_1 reg_2 =
     x86_encoder_write_modrm_rex enc X86_CMP_MODRM reg_1 reg_2 1"

definition x86_encoder_write_modrm :: "x86_encoder \<Rightarrow> byte \<Rightarrow> byte \<Rightarrow> byte \<Rightarrow> x86_encoder" where
  "x86_encoder_write_modrm enc opcode reg_1 reg_2 =
     x86_encoder_write_modrm_rex enc opcode reg_1 reg_2 1"

definition x86_encoder_write_modrm_32 :: "x86_encoder \<Rightarrow> byte \<Rightarrow> byte \<Rightarrow> byte \<Rightarrow> x86_encoder" where
  "x86_encoder_write_modrm_32 enc opcode reg_1 reg_2 =
     x86_encoder_write_modrm_rex enc opcode reg_1 reg_2 0"

definition x86_encoder_write_modrm_16 :: "x86_encoder \<Rightarrow> byte \<Rightarrow> byte \<Rightarrow> byte \<Rightarrow> x86_encoder" where
  "x86_encoder_write_modrm_16 enc opcode reg_1 reg_2 =
     (let enc1 = x86_encoder_check_buffer enc 4;
          enc2 = enc_append enc1 [X86_OPERAND_SIZE_OVERRIDE]
      in enc_append enc2 (x86_encoder_prepare_modrm_rex opcode reg_1 reg_2 0))"

definition x86_encoder_write_modrm_8 :: "x86_encoder \<Rightarrow> byte \<Rightarrow> byte \<Rightarrow> byte \<Rightarrow> x86_encoder" where
  "x86_encoder_write_modrm_8 enc opcode reg_1 reg_2 =
     x86_encoder_write_modrm_rex enc (opcode - 1) reg_1 reg_2 0"

definition x86_encoder_write_mov_imm_64 :: "x86_encoder \<Rightarrow> byte \<Rightarrow> 64 word \<Rightarrow> x86_encoder" where
  "x86_encoder_write_mov_imm_64 enc reg_r v =
     enc_append (x86_encoder_check_buffer enc 11)
       ([X86_REX_FIELD (reg_r AND 0x08 \<noteq> 0) False False True,
         X86_MOV_REG_IMM_LONG (reg_r AND 0x07)] @ le_bytes 8 v)"

definition x86_encoder_write_mov_imm_32 :: "x86_encoder \<Rightarrow> byte \<Rightarrow> 32 word \<Rightarrow> x86_encoder" where
  "x86_encoder_write_mov_imm_32 enc reg_r v =
     enc_append (x86_encoder_check_buffer enc 6)
       ([X86_REX_FIELD (reg_r AND 0x08 \<noteq> 0) False False False,
         X86_MOV_REG_IMM_LONG (reg_r AND 0x07)] @ le_bytes 4 v)"

definition x86_encoder_write_mov_imm_16 :: "x86_encoder \<Rightarrow> byte \<Rightarrow> 16 word \<Rightarrow> x86_encoder" where
  "x86_encoder_write_mov_imm_16 enc reg_r v =
     enc_append (x86_encoder_check_buffer enc 5)
       ([X86_OPERAND_SIZE_OVERRIDE,
         X86_REX_FIELD (reg_r AND 0x08 \<noteq> 0) False False False,
         X86_MOV_REG_IMM_LONG (reg_r AND 0x07)] @ le_bytes 2 v)"

definition x86_encoder_write_mov_imm_8 :: "x86_encoder \<Rightarrow> byte \<Rightarrow> 8 word \<Rightarrow> x86_encoder" where
  "x86_encoder_write_mov_imm_8 enc reg_r v =
     enc_append (x86_encoder_check_buffer enc 3)
       ([X86_REX_FIELD (reg_r AND 0x08 \<noteq> 0) False False False,
         X86_MOV_REG_IMM_LOW (reg_r AND 0x07)] @ le_bytes 1 v)"

definition x86_encoder_write_push :: "x86_encoder \<Rightarrow> byte \<Rightarrow> x86_encoder" where
  "x86_encoder_write_push enc reg_r =
     enc_append (x86_encoder_check_buffer enc 2)
       [X86_REX_FIELD (reg_r AND 0x08 \<noteq> 0) False False False, X86_PUSH_REG (reg_r AND 0x07)]"

definition x86_encoder_write_pop :: "x86_encoder \<Rightarrow> byte \<Rightarrow> x86_encoder" where
  "x86_encoder_write_pop enc reg_r =
     enc_append (x86_encoder_check_buffer enc 2)
       [X86_REX_FIELD (reg_r AND 0x08 \<noteq> 0) False False False, X86_POP_REG (reg_r AND 0x07)]"

definition x86_encoder_write_ret :: "x86_encoder \<Rightarrow> x86_encoder" where
  "x86_encoder_write_ret enc = enc_append (x86_encoder_check_buffer enc 1) [X86_RET]"

definition x86_encoder_write_nop :: "x86_encoder \<Rightarrow> x86_encoder" where
  "x86_encoder_write_nop enc = enc_append (x86_encoder_check_buffer enc 1) [X86_NOP]"

subsection \<open>Linking\<close>

text \<open>
  A store through \<open>(int32_t*)(t_buffer + offset)\<close> or \<open>(uint64_t*)(t_buffer + offset)\<close>
  overwrites the bytes at \<open>offset\<close>. The target is a list of the bytes it holds, and a
  store that does not fit into it has no defined behaviour (\<open>None\<close>).
\<close>

definition store_bytes :: "byte list \<Rightarrow> nat \<Rightarrow> byte list \<Rightarrow> byte list option" where
  "store_bytes mem off bs =
     (if off + length bs \<le> length mem
      then Some (take off mem @ bs @ drop (off + length bs) mem)
      else None)"

text \<open>
  The loop of \<open>x86_encoder_apply_relocations_in_memory\<close> over the relocations that are
  left. \<open>size_t label = reloc->label\<close> sign-extends the \<open>int\<close>;
  \<open>int32_t rel = to - from\<close> keeps the low 32 bits of the difference;
  \<open>base + to\<close> is computed in 64 bits. The result is the value returned and the target.
\<close>

fun apply_relocations_loop ::
  "x86_encoder \<Rightarrow> x86_relocation list \<Rightarrow> byte list \<Rightarrow> nat \<Rightarrow> (c_int \<times> byte list) option" where
  "apply_relocations_loop enc [] t_buffer base = Some (0, t_buffer)"
| "apply_relocations_loop enc (reloc # rest) t_buffer base =
     (let lbl = unat (scast (label reloc) :: 64 word) in
      if lbl \<ge> labels_size enc then Some (1, t_buffer)
      else
        let to = labels enc ! lbl in
        if relative reloc \<noteq> 0 then
          (let from = offset reloc + 4;
               rel = (word_of_int (int to - int from) :: 32 word)
           in case store_bytes t_buffer (offset reloc) (le_bytes 4 rel) of
                None \<Rightarrow> None
              | Some t_buffer' \<Rightarrow> apply_relocations_loop enc rest t_buffer' base)
        else
          (case store_bytes t_buffer (offset reloc)
                  (le_bytes 8 (word_of_nat (base + to) :: 64 word)) of
             None \<Rightarrow> None
           | Some t_buffer' \<Rightarrow> apply_relocations_loop enc rest t_buffer' base))"

definition x86_encoder_apply_relocations_in_memory ::
  "x86_encoder \<Rightarrow> byte list \<Rightarrow> nat \<Rightarrow> (c_int \<times> byte list) option" where
  "x86_encoder_apply_relocations_in_memory enc t_buffer base =
     apply_relocations_loop enc (relocations enc) t_buffer base"

text \<open>\<open>x86_encoder_apply_relocations\<close> links the encoder's own buffer.\<close>

definition x86_encoder_apply_relocations ::
  "x86_encoder \<Rightarrow> nat \<Rightarrow> (c_int \<times> x86_encoder) option" where
  "x86_encoder_apply_relocations enc base =
     (case x86_encoder_apply_relocations_in_memory enc (buffer enc) base of
        None \<Rightarrow> None
      | Some (r, t_buffer) \<Rightarrow> Some (r, enc\<lparr>buffer := t_buffer\<rparr>))"

text \<open>
  \<open>x86_encoder_link_to_memory\<close>: the target, at address \<open>target\<close>, receives a copy of
  the buffer, which is then linked; the result is the value returned and the
  \<open>buffer_size\<close> bytes of the target.
\<close>

definition x86_encoder_link_to_memory ::
  "x86_encoder \<Rightarrow> nat \<Rightarrow> (c_int \<times> byte list) option" where
  "x86_encoder_link_to_memory enc target =
     x86_encoder_apply_relocations_in_memory enc (buffer enc) target"



subsection \<open>Sequences of calls\<close>

text \<open>
  A client of the encoder, as \<open>main\<close> is, makes a sequence of calls of
  \<open>x86_encoder_add_label\<close>, \<open>x86_encoder_move_label\<close> and the emitters on an encoder
  that starts zeroed.
\<close>

datatype enc_call =
    Add_label
  | Move_label nat
  | Write_modrm_rex byte byte byte c_int
  | Write_jmp c_int nat
  | Write_jmp_cond c_int nat
  | Write_jmp_reg c_int byte
  | Write_cmp_reg byte byte
  | Write_modrm byte byte byte
  | Write_modrm_32 byte byte byte
  | Write_modrm_16 byte byte byte
  | Write_modrm_8 byte byte byte
  | Write_mov_imm_64 byte "64 word"
  | Write_mov_imm_32 byte "32 word"
  | Write_mov_imm_16 byte "16 word"
  | Write_mov_imm_8 byte "8 word"
  | Write_push byte
  | Write_pop byte
  | Write_ret
  | Write_nop

text \<open>One call: the label id returned, if the call returns one, and the encoder.\<close>

fun do_call :: "x86_encoder \<Rightarrow> enc_call \<Rightarrow> (nat option \<times> x86_encoder) option" where
  "do_call enc Add_label =
     (case x86_encoder_add_label enc of (n, enc') \<Rightarrow> Some (Some n, enc'))"
| "do_call enc (Move_label l) =
     (case x86_encoder_move_label enc l of None \<Rightarrow> None | Some enc' \<Rightarrow> Some (None, enc'))"
| "do_call enc (Write_modrm_rex opc r1 r2 w) = Some (None, x86_encoder_write_modrm_rex enc opc r1 r2 w)"
| "do_call enc (Write_jmp c l) = Some (None, x86_encoder_write_jmp enc c l)"
| "do_call enc (Write_jmp_cond c l) = Some (None, x86_encoder_write_jmp_cond enc c l)"
| "do_call enc (Write_jmp_reg c r) = Some (None, x86_encoder_write_jmp_reg enc c r)"
| "do_call enc (Write_cmp_reg r1 r2) = Some (None, x86_encoder_write_cmp_reg enc r1 r2)"
| "do_call enc (Write_modrm opc r1 r2) = Some (None, x86_encoder_write_modrm enc opc r1 r2)"
| "do_call enc (Write_modrm_32 opc r1 r2) = Some (None, x86_encoder_write_modrm_32 enc opc r1 r2)"
| "do_call enc (Write_modrm_16 opc r1 r2) = Some (None, x86_encoder_write_modrm_16 enc opc r1 r2)"
| "do_call enc (Write_modrm_8 opc r1 r2) = Some (None, x86_encoder_write_modrm_8 enc opc r1 r2)"
| "do_call enc (Write_mov_imm_64 r v) = Some (None, x86_encoder_write_mov_imm_64 enc r v)"
| "do_call enc (Write_mov_imm_32 r v) = Some (None, x86_encoder_write_mov_imm_32 enc r v)"
| "do_call enc (Write_mov_imm_16 r v) = Some (None, x86_encoder_write_mov_imm_16 enc r v)"
| "do_call enc (Write_mov_imm_8 r v) = Some (None, x86_encoder_write_mov_imm_8 enc r v)"
| "do_call enc (Write_push r) = Some (None, x86_encoder_write_push enc r)"
| "do_call enc (Write_pop r) = Some (None, x86_encoder_write_pop enc r)"
| "do_call enc Write_ret = Some (None, x86_encoder_write_ret enc)"
| "do_call enc Write_nop = Some (None, x86_encoder_write_nop enc)"

text \<open>
  A sequence of calls: the label ids returned, in the order of the calls, and the
  encoder at the end.
\<close>

fun do_calls :: "x86_encoder \<Rightarrow> enc_call list \<Rightarrow> (nat list \<times> x86_encoder) option" where
  "do_calls enc [] = Some ([], enc)"
| "do_calls enc (c # cs) =
     (case do_call enc c of
        None \<Rightarrow> None
      | Some (r, enc1) \<Rightarrow>
          (case do_calls enc1 cs of
             None \<Rightarrow> None
           | Some (ids, enc2) \<Rightarrow> Some ((case r of None \<Rightarrow> [] | Some n \<Rightarrow> [n]) @ ids, enc2)))"

subsection \<open>The encodings in the words of the specification\<close>

text \<open>
  A REX prefix is a byte \<open>0100_WRXB\<close>; a ModR/M byte is laid out as
  \<open>mod(2) | reg(3) | rm(3)\<close>.
\<close>

definition rex_layout :: "byte \<Rightarrow> bool \<Rightarrow> bool \<Rightarrow> bool \<Rightarrow> bool \<Rightarrow> bool" where
  "rex_layout v w r x b \<longleftrightarrow>
     drop_bit 4 v = 4 \<and> bit v 3 = w \<and> bit v 2 = r \<and> bit v 1 = x \<and> bit v 0 = b"

definition modrm_layout :: "byte \<Rightarrow> byte \<Rightarrow> byte \<Rightarrow> byte \<Rightarrow> bool" where
  "modrm_layout v md rg r_m \<longleftrightarrow>
     drop_bit 6 v = md \<and> take_bit 3 (drop_bit 3 v) = rg \<and> take_bit 3 v = r_m"

subsection \<open>Invariants and examples of the encoder\<close>

text \<open>The label id that linking reads from a relocation: \<open>size_t label = reloc->label\<close>.\<close>

definition reloc_label :: "x86_relocation \<Rightarrow> nat" where
  "reloc_label r = unat (scast (label r) :: 64 word)"

text \<open>Every label offset is a position of the buffer or its end.\<close>

definition labels_in_buffer :: "x86_encoder \<Rightarrow> bool" where
  "labels_in_buffer enc \<longleftrightarrow> (\<forall>l \<in> set (labels enc). l \<le> buffer_size enc)"

text \<open>
  The placeholders of the relocations, in the order of recording, lie one after the
  other without overlap, inside the buffer, and every relocation is relative.
\<close>

fun relocs_apart :: "x86_relocation list \<Rightarrow> bool" where
  "relocs_apart [] = True"
| "relocs_apart (r # rs) = ((\<forall>r' \<in> set rs. offset r + 4 \<le> offset r') \<and> relocs_apart rs)"

definition relocations_placed :: "x86_encoder \<Rightarrow> bool" where
  "relocations_placed enc \<longleftrightarrow>
     relocs_apart (relocations enc) \<and>
     (\<forall>r \<in> set (relocations enc). relative r \<noteq> 0 \<and> offset r + 4 \<le> buffer_size enc)"

text \<open>
  A label, a \<open>NOP\<close>, a second label, the first label moved behind the \<open>NOP\<close>, a jump
  to the second label and a \<open>RET\<close>; and the encoder after these calls.
\<close>

definition jump_back_calls :: "enc_call list" where
  "jump_back_calls = [Add_label, Write_nop, Add_label, Move_label 0, Write_jmp 0 1, Write_ret]"

definition jump_back_encoder :: x86_encoder where
  "jump_back_encoder =
     \<lparr>buffer = [0x90, 0xE9, 0, 0, 0, 0, 0xC3], buffer_capacity = 1025,
      labels = [1, 1], labels_capacity = 1024,
      relocations = [\<lparr>offset = 2, label = 1, relative = 1\<rparr>], relocations_capacity = 1024\<rparr>"


text \<open>
  A label and two jumps, the first to the label and the second to the label id 7, which
  does not exist; and the encoder after these calls.
\<close>

definition unknown_label_calls :: "enc_call list" where
  "unknown_label_calls = [Add_label, Write_jmp 0 0, Write_jmp 0 7]"

definition unknown_label_encoder :: x86_encoder where
  "unknown_label_encoder =
     \<lparr>buffer = [0xE9, 0, 0, 0, 0, 0xE9, 0, 0, 0, 0], buffer_capacity = 1029,
      labels = [0], labels_capacity = 1024,
      relocations = [\<lparr>offset = 1, label = 0, relative = 1\<rparr>,
                     \<lparr>offset = 6, label = 7, relative = 1\<rparr>],
      relocations_capacity = 1024\<rparr>"

text \<open>
  A label and a jump to the label id \<open>2^32\<close>, which does not exist and does not fit
  the \<open>int\<close> of the relocation record; and the encoder after these calls.
\<close>

definition narrowed_label_calls :: "enc_call list" where
  "narrowed_label_calls = [Add_label, Write_jmp 0 4294967296]"

definition narrowed_label_encoder :: x86_encoder where
  "narrowed_label_encoder =
     \<lparr>buffer = [0xE9, 0, 0, 0, 0], buffer_capacity = 1029,
      labels = [0], labels_capacity = 1024,
      relocations = [\<lparr>offset = 1, label = 0, relative = 1\<rparr>],
      relocations_capacity = 1024\<rparr>"

section \<open>The IR analyzer\<close>

subsection \<open>Data model\<close>

text \<open>
  The \<open>int\<close> values of the analyzer (opcode types, reference ids, instruction indices)
  are integers: a function has fewer than \<open>2^31\<close> opcodes, so that no index wraps.
  \<open>unsigned short\<close> is a 16-bit word and \<open>unsigned\<close> a 32-bit word.

  \<open>struct Operand\<close>: the analysis reads the union through its member \<open>ref_id\<close> only,
  and never reads \<open>type_info\<close>, which is left out.
\<close>

record Operand =
  ref_id :: int
  info_type :: "16 word"
  info_flags :: "16 word"

text \<open>
  \<open>struct Opcode\<close>: the array \<open>operands[3]\<close> is the three fields
  \<open>operands[OPERAND_TARGET]\<close>, \<open>operands[OPERAND_PRIMARY_1]\<close> and
  \<open>operands[OPERAND_PRIMARY_2]\<close>.
\<close>

record Opcode =
  type :: int
  operand_target :: Operand
  operand_primary_1 :: Operand
  operand_primary_2 :: Operand

text \<open>
  \<open>struct Function\<close>: the analysis reads the opcodes and the number of variables.
\<close>

record Function =
  opcodes :: "Opcode list"
  variables_size :: nat

definition opcodes_size :: "Function \<Rightarrow> nat" where
  "opcodes_size fn = length (opcodes fn)"

record OpcodeInfo =
  previous_label :: int
  jump_from :: int

record VariableInfo =
  lifetime_start :: int
  lifetime_end :: int
  flags :: "32 word"

text \<open>\<open>struct FunctionAnalysis\<close>: the two arrays, of \<open>opcodes_size\<close> and \<open>variables_size\<close> entries.\<close>

record FunctionAnalysis =
  infos :: "OpcodeInfo list"
  variables :: "VariableInfo list"

definition OPERAND_INFO_TYPE_IMMEDIATE :: "16 word" where "OPERAND_INFO_TYPE_IMMEDIATE = 0"
definition OPERAND_INFO_TYPE_VARIABLE :: "16 word" where "OPERAND_INFO_TYPE_VARIABLE = 1"
definition OPERAND_FLAG_ADDRESS :: "16 word" where "OPERAND_FLAG_ADDRESS = push_bit 0 1"

definition OPCODE_NOP :: int where "OPCODE_NOP = 0"
definition OPCODE_COPY :: int where "OPCODE_COPY = 1"
definition OPCODE_ADD :: int where "OPCODE_ADD = 2"
definition OPCODE_NOT :: int where "OPCODE_NOT = 6"
definition OPCODE_BIT_NEG :: int where "OPCODE_BIT_NEG = 9"
definition OPCODE_GOTO_BASE :: int where "OPCODE_GOTO_BASE = 16"
definition OPCODE_COMPARE_BASE :: int where "OPCODE_COMPARE_BASE = 24"
definition OPCODE_SET_ARGUMENT :: int where "OPCODE_SET_ARGUMENT = 32"
definition OPCODE_CALL :: int where "OPCODE_CALL = 33"
definition OPCODE_RETURN :: int where "OPCODE_RETURN = 34"

definition COMPARISON_EQUAL :: int where "COMPARISON_EQUAL = 1"

definition OPCODE_GOTO_COND :: "int \<Rightarrow> int" where
  "OPCODE_GOTO_COND comparison_type = OPCODE_GOTO_BASE + comparison_type"

definition VARIABLE_INFO_PRUNED :: "32 word" where "VARIABLE_INFO_PRUNED = push_bit 0 1"
definition VARIABLE_INFO_UNUSED :: "32 word" where "VARIABLE_INFO_UNUSED = push_bit 1 1"
definition VARIABLE_INFO_ETERNAL :: "32 word" where "VARIABLE_INFO_ETERNAL = push_bit 2 1"
definition VARIABLE_INFO_UNINITIALIZED :: "32 word" where "VARIABLE_INFO_UNINITIALIZED = push_bit 4 1"

subsection \<open>Opcode and operand tests\<close>

definition opcode_is_jump :: "Opcode \<Rightarrow> bool" where
  "opcode_is_jump x \<longleftrightarrow> type x \<ge> OPCODE_GOTO_BASE \<and> type x < OPCODE_GOTO_BASE + 8"

definition opcode_is_pure_assignment :: "Opcode \<Rightarrow> bool" where
  "opcode_is_pure_assignment x =
     (if type x = OPCODE_COPY then True
      else if type x = OPCODE_CALL then True
      else False)"

definition opcode_modifies_target_operand :: "Opcode \<Rightarrow> bool" where
  "opcode_modifies_target_operand x =
     (if type x \<ge> 1 \<and> type x \<le> 15 then True
      else if type x \<ge> OPCODE_COMPARE_BASE \<and> type x < OPCODE_COMPARE_BASE + 8 then True
      else if type x = OPCODE_CALL then True
      else False)"

definition opcode_read_operand_primary_1 :: "Opcode \<Rightarrow> bool" where
  "opcode_read_operand_primary_1 x =
     (if type x = OPCODE_COMPARE_BASE \<or> type x = OPCODE_GOTO_BASE then False
      else if type x = OPCODE_NOP then False
      else True)"

definition opcode_read_operand_primary_2 :: "Opcode \<Rightarrow> bool" where
  "opcode_read_operand_primary_2 x =
     (if \<not> opcode_read_operand_primary_1 x then False
      else if type x = OPCODE_RETURN then False
      else if type x = OPCODE_CALL then False
      else if type x = OPCODE_SET_ARGUMENT then False
      else if type x = OPCODE_BIT_NEG then False
      else if type x = OPCODE_NOT then False
      else if type x = OPCODE_COPY then False
      else True)"

definition operand_is_variable :: "Operand \<Rightarrow> bool" where
  "operand_is_variable operand \<longleftrightarrow> info_type operand = OPERAND_INFO_TYPE_VARIABLE"

text \<open>The source has the bitwise or \<open>info_flags | OPERAND_FLAG_ADDRESS\<close> here.\<close>

definition operand_is_variable_address_load :: "Operand \<Rightarrow> bool" where
  "operand_is_variable_address_load operand \<longleftrightarrow>
     operand_is_variable operand \<and> (info_flags operand OR OPERAND_FLAG_ADDRESS) \<noteq> 0"

subsection \<open>Lifetime extension\<close>

text \<open>
  A read of \<open>a->infos[pos]\<close> outside the array has no defined behaviour, and the loops of
  \<open>extend_variable_lifetime\<close> need not end on every content of \<open>infos\<close>: both are the
  value \<open>None\<close>.

  The inner \<open>while (pos >= minimum)\<close> loop, from \<open>pos\<close> and \<open>max_jmp_pos\<close>; its result
  is \<open>max_jmp_pos\<close> at the exit.
\<close>

partial_function (option) scan_previous_labels ::
  "OpcodeInfo list \<Rightarrow> int \<Rightarrow> int \<Rightarrow> int \<Rightarrow> int option" where
  "scan_previous_labels infs minimum pos max_jmp_pos =
     (if pos \<ge> minimum then
        (if 0 \<le> pos \<and> pos < int (length infs) then
           scan_previous_labels infs minimum (previous_label (infs ! nat pos))
             (if jump_from (infs ! nat pos) > max_jmp_pos
              then jump_from (infs ! nat pos) else max_jmp_pos)
         else None)
      else Some max_jmp_pos)"

declare scan_previous_labels.simps [code]

text \<open>
  The \<open>do ... while (max_jmp_pos >= maximum)\<close> loop, from \<open>minimum\<close> and
  \<open>max_jmp_pos\<close>; its result is \<open>maximum\<close> at the exit.
\<close>

partial_function (option) scan_jumps :: "OpcodeInfo list \<Rightarrow> int \<Rightarrow> int \<Rightarrow> int option" where
  "scan_jumps infs minimum max_jmp_pos =
     Option.bind (scan_previous_labels infs minimum max_jmp_pos max_jmp_pos)
       (\<lambda>max_jmp_pos'.
          if max_jmp_pos' \<ge> max_jmp_pos + 1
          then scan_jumps infs (max_jmp_pos + 1) max_jmp_pos'
          else Some (max_jmp_pos + 1))"

declare scan_jumps.simps [code]

text \<open>
  \<open>extend_variable_lifetime\<close> reads \<open>a->infos\<close> and updates \<open>*var\<close>: the model takes
  the array and the variable's record and returns the record.
\<close>

definition extend_variable_lifetime ::
  "OpcodeInfo list \<Rightarrow> VariableInfo \<Rightarrow> int \<Rightarrow> bool \<Rightarrow> VariableInfo option" where
  "extend_variable_lifetime infs var index pure_assignment =
     (if lifetime_end var \<ge> index \<or> flags var AND VARIABLE_INFO_ETERNAL \<noteq> 0
          \<or> flags var AND VARIABLE_INFO_UNINITIALIZED \<noteq> 0
      then Some var
      else if lifetime_start var = - 1 then
        (if pure_assignment
         then Some (var\<lparr>lifetime_start := index,
                         lifetime_end := index + 1,
                         flags := flags var OR VARIABLE_INFO_UNUSED\<rparr>)
         else Some (var\<lparr>flags := flags var OR (VARIABLE_INFO_ETERNAL OR VARIABLE_INFO_UNINITIALIZED)\<rparr>))
      else
        (let var1 = (if pure_assignment
                     then var\<lparr>flags := flags var OR VARIABLE_INFO_UNUSED\<rparr>
                     else var\<lparr>flags := flags var AND NOT VARIABLE_INFO_UNUSED\<rparr>);
             minimum = (if lifetime_end var1 < lifetime_start var1
                        then lifetime_start var1 else lifetime_end var1)
         in case scan_jumps infs minimum index of
              None \<Rightarrow> None
            | Some maximum \<Rightarrow> Some (var1\<lparr>lifetime_end := maximum\<rparr>)))"

subsection \<open>The three passes\<close>

text \<open>
  The first loop, \<open>for (int i = opcodes_size - 1; i >= 0; --i)\<close>; the counter of the
  model is \<open>i + 1\<close>. A jump whose target is not an index of \<open>infos\<close> makes the loop read
  outside the array (\<open>None\<close>).
\<close>

fun generate_label_data :: "Opcode list \<Rightarrow> nat \<Rightarrow> OpcodeInfo list \<Rightarrow> OpcodeInfo list option" where
  "generate_label_data ops 0 infs = Some infs"
| "generate_label_data ops (Suc i) infs =
     (let op = ops ! i in
      if opcode_is_jump op then
        (let lbl = ref_id (operand_target op) in
         if 0 \<le> lbl \<and> lbl < int (length infs) then
           (if jump_from (infs ! nat lbl) \<ge> 0
            then generate_label_data ops i infs
            else generate_label_data ops i (infs[nat lbl := (infs ! nat lbl)\<lparr>jump_from := int i\<rparr>]))
         else None)
      else generate_label_data ops i infs)"

text \<open>The second loop, from index \<open>i\<close> with the current \<open>previous_label\<close>.\<close>

function build_previous_label :: "OpcodeInfo list \<Rightarrow> nat \<Rightarrow> int \<Rightarrow> OpcodeInfo list" where
  "build_previous_label infs i prev =
     (if i < length infs
      then build_previous_label (infs[i := (infs ! i)\<lparr>previous_label := prev\<rparr>]) (Suc i)
             (if jump_from (infs ! i) \<ge> 0 then int i else prev)
      else infs)"
  by pat_completeness auto
termination
  by (relation "measure (\<lambda>(infs, i, prev). length infs - i)") auto

declare build_previous_label.simps [simp del]

text \<open>
  \<open>&a->variables[ref]\<close> is handed to a callee that updates the variable in place; a
  reference outside the array has no defined behaviour.
\<close>

definition update_variable ::
  "FunctionAnalysis \<Rightarrow> int \<Rightarrow> (VariableInfo \<Rightarrow> VariableInfo option) \<Rightarrow> FunctionAnalysis option" where
  "update_variable a r f =
     (if 0 \<le> r \<and> r < int (length (variables a)) then
        (case f (variables a ! nat r) of
           None \<Rightarrow> None
         | Some var \<Rightarrow> Some (a\<lparr>variables := (variables a)[nat r := var]\<rparr>))
      else None)"

definition mark_eternal :: "VariableInfo \<Rightarrow> VariableInfo option" where
  "mark_eternal var = Some (var\<lparr>flags := flags var OR VARIABLE_INFO_ETERNAL\<rparr>)"

text \<open>The body of the third loop at the opcode \<open>op\<close> of index \<open>i\<close>.\<close>

definition lifetime_target :: "Opcode \<Rightarrow> int \<Rightarrow> FunctionAnalysis \<Rightarrow> FunctionAnalysis option" where
  "lifetime_target op i a =
     (let pure_assign = opcode_is_pure_assignment op in
      if operand_is_variable (operand_target op)
          \<and> (pure_assign \<or> opcode_modifies_target_operand op)
      then update_variable a (ref_id (operand_target op))
             (\<lambda>var. extend_variable_lifetime (infos a) var i pure_assign)
      else Some a)"

definition lifetime_primary_1 :: "Opcode \<Rightarrow> int \<Rightarrow> FunctionAnalysis \<Rightarrow> FunctionAnalysis option" where
  "lifetime_primary_1 op i a =
     (if operand_is_variable_address_load (operand_primary_1 op)
      then update_variable a (ref_id (operand_primary_1 op)) mark_eternal
      else if operand_is_variable (operand_primary_1 op) \<and> opcode_read_operand_primary_1 op
      then update_variable a (ref_id (operand_primary_1 op))
             (\<lambda>var. extend_variable_lifetime (infos a) var i False)
      else Some a)"

definition lifetime_primary_2 :: "Opcode \<Rightarrow> int \<Rightarrow> FunctionAnalysis \<Rightarrow> FunctionAnalysis option" where
  "lifetime_primary_2 op i a =
     (if operand_is_variable_address_load (operand_primary_2 op)
      then update_variable a (ref_id (operand_primary_2 op)) mark_eternal
      else if operand_is_variable (operand_primary_2 op) \<and> opcode_read_operand_primary_2 op
      then update_variable a (ref_id (operand_primary_2 op))
             (\<lambda>var. extend_variable_lifetime (infos a) var i False)
      else Some a)"

definition lifetime_step :: "Opcode \<Rightarrow> int \<Rightarrow> FunctionAnalysis \<Rightarrow> FunctionAnalysis option" where
  "lifetime_step op i a =
     Option.bind (lifetime_target op i a)
       (\<lambda>a1. Option.bind (lifetime_primary_1 op i a1) (lifetime_primary_2 op i))"

text \<open>The third loop, from index \<open>i\<close>.\<close>

function calculate_lifetimes :: "Function \<Rightarrow> nat \<Rightarrow> FunctionAnalysis \<Rightarrow> FunctionAnalysis option" where
  "calculate_lifetimes fn i a =
     (if i < opcodes_size fn then
        (case lifetime_step (opcodes fn ! i) (int i) a of
           None \<Rightarrow> None
         | Some a' \<Rightarrow> calculate_lifetimes fn (Suc i) a')
      else Some a)"
  by pat_completeness auto
termination
  by (relation "measure (\<lambda>(fn, i, a). opcodes_size fn - i)") auto

declare calculate_lifetimes.simps [simp del]

text \<open>
  \<open>analyse_function\<close>. The array \<open>infos\<close> comes from \<open>malloc\<close> and is not initialised: its
  content before the first loop is indeterminate, and is the parameter \<open>uninit\<close>, which
  gives the content of each entry. The variables are initialised by the source. The result
  is the analysis as it stands after the third loop.
\<close>

definition analyse_function :: "Function \<Rightarrow> (nat \<Rightarrow> OpcodeInfo) \<Rightarrow> FunctionAnalysis option" where
  "analyse_function fn uninit =
     (let infos0 = map uninit [0..<opcodes_size fn];
          variables0 = replicate (variables_size fn)
                         \<lparr>lifetime_start = - 1, lifetime_end = - 1, flags = 0\<rparr>
      in case generate_label_data (opcodes fn) (opcodes_size fn) infos0 of
           None \<Rightarrow> None
         | Some infos1 \<Rightarrow>
             calculate_lifetimes fn 0
               \<lparr>infos = build_previous_label infos1 0 (- 1), variables = variables0\<rparr>)"

subsection \<open>Preconditions of the analysis\<close>

text \<open>
  A well-formed function: every jump targets an instruction of the function, and every
  operand that is a variable refers to a variable of the function.
\<close>

definition well_formed :: "Function \<Rightarrow> bool" where
  "well_formed fn \<longleftrightarrow>
     (\<forall>op \<in> set (opcodes fn).
        (opcode_is_jump op \<longrightarrow>
           0 \<le> ref_id (operand_target op) \<and> ref_id (operand_target op) < int (opcodes_size fn))
      \<and> (\<forall>x \<in> {operand_target op, operand_primary_1 op, operand_primary_2 op}.
           operand_is_variable x \<longrightarrow> 0 \<le> ref_id x \<and> ref_id x < int (variables_size fn)))"

text \<open>
  The indeterminate content of the fresh \<open>infos\<close> array holds no \<open>jump_from\<close> beyond
  the function, so that the scan for jumps, which follows \<open>jump_from\<close>, stays inside the
  array. The content that the first loop expects, \<open>- 1\<close> everywhere, is of this kind, and
  so is zero-filled memory.
\<close>

definition memory_in_range :: "Function \<Rightarrow> (nat \<Rightarrow> OpcodeInfo) \<Rightarrow> bool" where
  "memory_in_range fn uninit \<longleftrightarrow>
     (\<forall>i < opcodes_size fn. jump_from (uninit i) < int (opcodes_size fn))"

subsection \<open>What the third loop visits\<close>

text \<open>
  The variable \<open>v\<close> is visited at an opcode when one of the three statements of the loop
  body reaches \<open>a->variables[v]\<close>, through the target or through a primary operand.
\<close>

definition target_visits :: "Opcode \<Rightarrow> int \<Rightarrow> bool" where
  "target_visits op v \<longleftrightarrow>
     operand_is_variable (operand_target op)
     \<and> (opcode_is_pure_assignment op \<or> opcode_modifies_target_operand op)
     \<and> ref_id (operand_target op) = v"

definition primary_1_visits :: "Opcode \<Rightarrow> int \<Rightarrow> bool" where
  "primary_1_visits op v \<longleftrightarrow>
     (operand_is_variable_address_load (operand_primary_1 op)
        \<or> operand_is_variable (operand_primary_1 op) \<and> opcode_read_operand_primary_1 op)
     \<and> ref_id (operand_primary_1 op) = v"

definition primary_2_visits :: "Opcode \<Rightarrow> int \<Rightarrow> bool" where
  "primary_2_visits op v \<longleftrightarrow>
     (operand_is_variable_address_load (operand_primary_2 op)
        \<or> operand_is_variable (operand_primary_2 op) \<and> opcode_read_operand_primary_2 op)
     \<and> ref_id (operand_primary_2 op) = v"

definition visits :: "Opcode \<Rightarrow> int \<Rightarrow> bool" where
  "visits op v \<longleftrightarrow> target_visits op v \<or> primary_1_visits op v \<or> primary_2_visits op v"

subsection \<open>The jump sources in the words of the specification\<close>

text \<open>
  The opcode at \<open>i\<close> is a jump whose target operand refers to the instruction \<open>t\<close>;
  and the highest index from \<open>k\<close> on of a jump to \<open>t\<close>, or \<open>- 1\<close> when there is none.
\<close>

definition jumps_to :: "Opcode list \<Rightarrow> nat \<Rightarrow> nat \<Rightarrow> bool" where
  "jumps_to ops i t \<longleftrightarrow> opcode_is_jump (ops ! i) \<and> ref_id (operand_target (ops ! i)) = int t"

definition latest_jump :: "Opcode list \<Rightarrow> nat \<Rightarrow> nat \<Rightarrow> int" where
  "latest_jump ops k t =
     (if \<exists>i. k \<le> i \<and> i < length ops \<and> jumps_to ops i t
      then int (Max {i. k \<le> i \<and> i < length ops \<and> jumps_to ops i t})
      else - 1)"

subsection \<open>Invariants of the analysis\<close>

text \<open>
  The chain that the second loop builds: \<open>previous_label\<close> of an instruction is an
  earlier index, and no instruction strictly between the two has a \<open>jump_from\<close> that is set.
\<close>

definition chain_ok :: "OpcodeInfo list \<Rightarrow> bool" where
  "chain_ok infs \<longleftrightarrow>
     (\<forall>i < length infs. previous_label (infs ! i) < int i \<and>
        (\<forall>k < i. previous_label (infs ! i) < int k \<longrightarrow> jump_from (infs ! k) < 0))"

text \<open>The chain while the second loop is at index \<open>i\<close> with the current \<open>previous_label\<close>.\<close>

definition chain_upto :: "nat \<Rightarrow> int \<Rightarrow> OpcodeInfo list \<Rightarrow> bool" where
  "chain_upto i prev infs \<longleftrightarrow>
     (\<forall>i' < i. i' < length infs \<longrightarrow> previous_label (infs ! i') < int i' \<and>
        (\<forall>k < i'. previous_label (infs ! i') < int k \<longrightarrow> jump_from (infs ! k) < 0))
     \<and> prev < int i
     \<and> (\<forall>k < i. k < length infs \<longrightarrow> prev < int k \<longrightarrow> jump_from (infs ! k) < 0)"

definition jumps_in_range :: "OpcodeInfo list \<Rightarrow> bool" where
  "jumps_in_range infs \<longleftrightarrow> (\<forall>j < length infs. jump_from (infs ! j) < int (length infs))"

text \<open>
  What the inner loop has established when it returns \<open>m'\<close>: the positions read were
  inside the array, and \<open>m'\<close> is \<open>max_jmp_pos\<close> raised to every \<open>jump_from\<close> that is
  set at a position from \<open>minimum\<close> to \<open>pos\<close>.
\<close>

definition previous_labels_scanned ::
  "OpcodeInfo list \<Rightarrow> int \<Rightarrow> int \<Rightarrow> int \<Rightarrow> int \<Rightarrow> bool" where
  "previous_labels_scanned infs minimum pos m m' \<longleftrightarrow>
     (chain_ok infs \<longrightarrow>
        m \<le> m'
      \<and> (minimum \<le> pos \<longrightarrow> 0 \<le> pos \<and> pos < int (length infs))
      \<and> (\<forall>j. minimum \<le> int j \<and> int j \<le> pos \<longrightarrow>
            jump_from (infs ! j) \<le> m' \<or> jump_from (infs ! j) < 0)
      \<and> (m' = m \<or> (\<exists>j < length infs. m' = jump_from (infs ! j))))"

text \<open>
  What the outer loop has established when it returns \<open>M\<close>: every position from
  \<open>minimum\<close> to below \<open>M\<close> is jumped to from below \<open>M\<close> only.
\<close>

definition jumps_scanned :: "OpcodeInfo list \<Rightarrow> int \<Rightarrow> int \<Rightarrow> int \<Rightarrow> bool" where
  "jumps_scanned infs minimum m M \<longleftrightarrow>
     (chain_ok infs \<and> 0 \<le> minimum \<and> minimum \<le> m \<longrightarrow>
        m < M \<and> M \<le> int (length infs)
      \<and> (\<forall>j. minimum \<le> int j \<and> int j < M \<longrightarrow> jump_from (infs ! j) < M))"

definition is_eternal :: "VariableInfo \<Rightarrow> bool" where
  "is_eternal var \<longleftrightarrow> flags var AND VARIABLE_INFO_ETERNAL \<noteq> 0"

text \<open>
  A variable's record during the third loop: it is untouched (\<open>- 1\<close>, \<open>- 1\<close>) or a
  non-empty range of the function; UNINITIALIZED comes with ETERNAL; every position of
  the range after its first is jumped to from inside the range only.
\<close>

definition variable_ok :: "OpcodeInfo list \<Rightarrow> VariableInfo \<Rightarrow> bool" where
  "variable_ok infs var \<longleftrightarrow>
     ((lifetime_start var = - 1 \<and> lifetime_end var = - 1)
        \<or> (0 \<le> lifetime_start var \<and> lifetime_start var < lifetime_end var
            \<and> lifetime_end var \<le> int (length infs)))
     \<and> (flags var AND VARIABLE_INFO_UNINITIALIZED \<noteq> 0 \<longrightarrow> is_eternal var)
     \<and> (\<forall>j. lifetime_start var < int j \<and> int j < lifetime_end var \<longrightarrow>
           jump_from (infs ! j) < lifetime_end var)"

definition analysis_ok :: "Function \<Rightarrow> FunctionAnalysis \<Rightarrow> bool" where
  "analysis_ok fn a \<longleftrightarrow>
     chain_ok (infos a) \<and> length (infos a) = opcodes_size fn
     \<and> length (variables a) = variables_size fn
     \<and> (\<forall>v < variables_size fn. variable_ok (infos a) (variables a ! v))"

text \<open>From one state of the third loop to a later one: flags ETERNAL and starts stay.\<close>

definition step_mono :: "FunctionAnalysis \<Rightarrow> FunctionAnalysis \<Rightarrow> bool" where
  "step_mono a a' \<longleftrightarrow>
     infos a' = infos a \<and> length (variables a') = length (variables a)
     \<and> (\<forall>v < length (variables a).
          (is_eternal (variables a ! v) \<longrightarrow> is_eternal (variables a' ! v))
        \<and> (lifetime_start (variables a ! v) \<noteq> - 1 \<longrightarrow> lifetime_start (variables a' ! v) \<noteq> - 1))"

definition touched :: "FunctionAnalysis \<Rightarrow> int \<Rightarrow> bool" where
  "touched a v \<longleftrightarrow>
     0 \<le> v \<and> nat v < length (variables a)
     \<and> (is_eternal (variables a ! nat v) \<or> lifetime_start (variables a ! nat v) \<noteq> - 1)"

text \<open>The invariant of the third loop at index \<open>i\<close>.\<close>

definition lifetime_inv :: "Function \<Rightarrow> nat \<Rightarrow> FunctionAnalysis \<Rightarrow> bool" where
  "lifetime_inv fn i a \<longleftrightarrow>
     analysis_ok fn a
     \<and> (\<forall>j < i.
          (operand_is_variable (operand_primary_1 (opcodes fn ! j)) \<longrightarrow>
             0 \<le> ref_id (operand_primary_1 (opcodes fn ! j))
           \<and> nat (ref_id (operand_primary_1 (opcodes fn ! j))) < variables_size fn
           \<and> is_eternal (variables a ! nat (ref_id (operand_primary_1 (opcodes fn ! j)))))
        \<and> (operand_is_variable (operand_primary_2 (opcodes fn ! j)) \<longrightarrow>
             0 \<le> ref_id (operand_primary_2 (opcodes fn ! j))
           \<and> nat (ref_id (operand_primary_2 (opcodes fn ! j))) < variables_size fn
           \<and> is_eternal (variables a ! nat (ref_id (operand_primary_2 (opcodes fn ! j))))))
     \<and> (\<forall>v < variables_size fn. \<not> is_eternal (variables a ! v) \<longrightarrow>
          (lifetime_start (variables a ! v) = - 1) = (\<forall>j < i. \<not> visits (opcodes fn ! j) (int v)))"

subsection \<open>Example functions\<close>

definition imm_operand :: "int \<Rightarrow> Operand" where
  "imm_operand v = \<lparr>ref_id = v, info_type = OPERAND_INFO_TYPE_IMMEDIATE, info_flags = 0\<rparr>"

definition var_operand :: "int \<Rightarrow> Operand" where
  "var_operand v = \<lparr>ref_id = v, info_type = OPERAND_INFO_TYPE_VARIABLE, info_flags = 0\<rparr>"

text \<open>
  The function of six opcodes
  \<^verbatim>\<open>0: COPY v0, imm(0)   1: COPY v1, imm(1)   2: ADD v0, v0, v1\<close>
  \<^verbatim>\<open>3: GOTO_EQ(v0, imm(10)) -> 5   4: GOTO -> 2   5: RETURN v0\<close>
  with the target index of a jump in its target operand, as the first loop reads it, and
  no operand carrying the ADDRESS flag.
\<close>

definition counting_loop :: Function where
  "counting_loop =
     \<lparr>opcodes =
        [\<lparr>type = OPCODE_COPY, operand_target = var_operand 0,
           operand_primary_1 = imm_operand 0, operand_primary_2 = imm_operand 0\<rparr>,
         \<lparr>type = OPCODE_COPY, operand_target = var_operand 1,
           operand_primary_1 = imm_operand 1, operand_primary_2 = imm_operand 0\<rparr>,
         \<lparr>type = OPCODE_ADD, operand_target = var_operand 0,
           operand_primary_1 = var_operand 0, operand_primary_2 = var_operand 1\<rparr>,
         \<lparr>type = OPCODE_GOTO_COND COMPARISON_EQUAL, operand_target = imm_operand 5,
           operand_primary_1 = var_operand 0, operand_primary_2 = imm_operand 10\<rparr>,
         \<lparr>type = OPCODE_GOTO_BASE, operand_target = imm_operand 2,
           operand_primary_1 = imm_operand 0, operand_primary_2 = imm_operand 0\<rparr>,
         \<lparr>type = OPCODE_RETURN, operand_target = imm_operand 0,
           operand_primary_1 = var_operand 0, operand_primary_2 = imm_operand 0\<rparr>],
      variables_size = 2\<rparr>"

text \<open>Contents of the fresh \<open>infos\<close> array: every field \<open>- 1\<close>, and zero-filled memory.\<close>

definition infos_minus_one :: "nat \<Rightarrow> OpcodeInfo" where
  "infos_minus_one i = \<lparr>previous_label = - 1, jump_from = - 1\<rparr>"

definition infos_zeroed :: "nat \<Rightarrow> OpcodeInfo" where
  "infos_zeroed i = \<lparr>previous_label = 0, jump_from = 0\<rparr>"

definition nop_opcode :: Opcode where
  "nop_opcode = \<lparr>type = OPCODE_NOP, operand_target = imm_operand 0,
                  operand_primary_1 = imm_operand 0, operand_primary_2 = imm_operand 0\<rparr>"

definition copy_opcode :: "int \<Rightarrow> int \<Rightarrow> Opcode" where
  "copy_opcode v k = \<lparr>type = OPCODE_COPY, operand_target = var_operand v,
                       operand_primary_1 = imm_operand k, operand_primary_2 = imm_operand 0\<rparr>"

definition goto_opcode :: "int \<Rightarrow> Opcode" where
  "goto_opcode t = \<lparr>type = OPCODE_GOTO_BASE, operand_target = imm_operand t,
                     operand_primary_1 = imm_operand 0, operand_primary_2 = imm_operand 0\<rparr>"

text \<open>
  \<^verbatim>\<open>0: COPY v0, imm(0)   1: GOTO -> 4   2: COPY v0, imm(1)   3: NOP   4: NOP\<close>:
  a jump from inside the lifetime of \<open>v0\<close> forward, past its end.
\<close>

definition forward_jump_function :: Function where
  "forward_jump_function =
     \<lparr>opcodes = [copy_opcode 0 0, goto_opcode 4, copy_opcode 0 1, nop_opcode, nop_opcode],
      variables_size = 1\<rparr>"

text \<open>
  \<^verbatim>\<open>0: COPY v0, imm(0)   1: NOP   2: COPY v0, imm(1)   3: GOTO -> 1\<close>:
  a jump from behind the last assignment of \<open>v0\<close> back between its assignments.
\<close>

definition backward_jump_function :: Function where
  "backward_jump_function =
     \<lparr>opcodes = [copy_opcode 0 0, nop_opcode, copy_opcode 0 1, goto_opcode 1],
      variables_size = 1\<rparr>"

text \<open>\<^verbatim>\<open>0: COPY v0, imm(0)   1: GOTO -> 0\<close>: a jump back to the first assignment.\<close>

definition restart_function :: Function where
  "restart_function = \<lparr>opcodes = [copy_opcode 0 0, goto_opcode 0], variables_size = 1\<rparr>"

text \<open>The analyses of three of the example functions, from \<open>infos\<close> holding \<open>- 1\<close>.\<close>

definition counting_loop_analysis :: FunctionAnalysis where
  "counting_loop_analysis =
     \<lparr>infos = [\<lparr>previous_label = - 1, jump_from = - 1\<rparr>,
               \<lparr>previous_label = - 1, jump_from = - 1\<rparr>,
               \<lparr>previous_label = - 1, jump_from = 4\<rparr>,
               \<lparr>previous_label = 2, jump_from = - 1\<rparr>,
               \<lparr>previous_label = 2, jump_from = - 1\<rparr>,
               \<lparr>previous_label = 2, jump_from = 3\<rparr>],
      variables = [\<lparr>lifetime_start = 0, lifetime_end = 5, flags = 4\<rparr>,
                   \<lparr>lifetime_start = 1, lifetime_end = 2, flags = 6\<rparr>]\<rparr>"

definition forward_jump_analysis :: FunctionAnalysis where
  "forward_jump_analysis =
     \<lparr>infos = [\<lparr>previous_label = - 1, jump_from = - 1\<rparr>,
               \<lparr>previous_label = - 1, jump_from = - 1\<rparr>,
               \<lparr>previous_label = - 1, jump_from = - 1\<rparr>,
               \<lparr>previous_label = - 1, jump_from = - 1\<rparr>,
               \<lparr>previous_label = - 1, jump_from = 1\<rparr>],
      variables = [\<lparr>lifetime_start = 0, lifetime_end = 3, flags = 2\<rparr>]\<rparr>"

definition backward_jump_analysis :: FunctionAnalysis where
  "backward_jump_analysis =
     \<lparr>infos = [\<lparr>previous_label = - 1, jump_from = - 1\<rparr>,
               \<lparr>previous_label = - 1, jump_from = 3\<rparr>,
               \<lparr>previous_label = 1, jump_from = - 1\<rparr>,
               \<lparr>previous_label = 1, jump_from = - 1\<rparr>],
      variables = [\<lparr>lifetime_start = 0, lifetime_end = 4, flags = 2\<rparr>]\<rparr>"

section \<open>Properties of the encoder\<close>

subsection \<open>Bytes and words\<close>

lemma and_8_iff_bit: "((r::byte) AND 0x08 \<noteq> 0) = bit r 3"
  using and_exp_eq_0_iff_not_bit [of r 3] by simp

lemma seven_mask: "(7::byte) = mask 3"
  by (simp add: mask_eq_exp_minus_1)

lemma rex_field_layout: "rex_layout (X86_REX_FIELD b x r w) w r x b"
  by (cases b; cases x; cases r; cases w)
     (simp_all add: rex_layout_def X86_REX_FIELD_def X86_REX_def X86_REX_B_def X86_REX_X_def
        X86_REX_R_def X86_REX_W_def)

lemma modrm_byte_layout:
  "modrm_layout (modrm_byte \<lparr>rm = a AND 0x07, reg = b AND 0x07, mod_field = 0x03\<rparr>)
     3 (take_bit 3 b) (take_bit 3 a)"
  unfolding modrm_layout_def modrm_byte_def seven_mask
  by (simp_all add: bit_eq_iff bit_simps) auto

lemma word_of_int_take_bit_32_byte: "(word_of_int (take_bit 32 x) :: byte) = word_of_int x"
  by (simp add: word_of_int_eq_iff)

lemma ucast_plus_down: "(ucast ((128 :: c_int) + cond) :: byte) = 128 + ucast cond"
proof -
  have "(ucast (128 + cond) :: byte) = word_of_int (uint (128 + cond))"
    by (rule ucast_eq)
  also have "uint (128 + cond) = take_bit 32 (128 + uint cond)"
    by (simp add: uint_word_ariths take_bit_eq_mod)
  also have "(word_of_int (take_bit 32 (128 + uint cond)) :: byte) = word_of_int (128 + uint cond)"
    by (rule word_of_int_take_bit_32_byte)
  also have "\<dots> = 128 + word_of_int (uint cond)"
    by simp
  also have "\<dots> = 128 + ucast cond"
    by (simp only: ucast_eq)
  finally show ?thesis .
qed

lemma sint_label: "lbl < 2 ^ 31 \<Longrightarrow> sint (word_of_nat lbl :: c_int) = int lbl"
  by (simp add: signed_of_nat signed_take_bit_int_eq_self)

lemma int_label_roundtrip:
  assumes "lbl < 2 ^ 31"
  shows "unat (scast (word_of_nat lbl :: c_int) :: 64 word) = lbl"
proof -
  have "(scast (word_of_nat lbl :: c_int) :: 64 word) = word_of_nat lbl"
    using sint_label [OF assms] by (simp add: scast_eq)
  moreover have "lbl < 2 ^ 64" using assms by (rule less_trans) simp
  ultimately show ?thesis by (simp add: unat_of_nat)
qed

lemma le_bytes_4_zero: "le_bytes 4 (0 :: 32 word) = [0, 0, 0, 0]"
  by (simp add: numeral_eq_Suc)

subsection \<open>What the emitters append\<close>

lemma buffer_check_buffer [simp]: "buffer (x86_encoder_check_buffer enc n) = buffer enc"
  by (simp add: x86_encoder_check_buffer_def)

lemma buffer_enc_append [simp]: "buffer (enc_append enc bs) = buffer enc @ bs"
  by (simp add: enc_append_def)

lemma buffer_add_relocation [simp]: "buffer (x86_encoder_add_relocation enc l r) = buffer enc"
  by (simp add: x86_encoder_add_relocation_def Let_def)

lemma relocations_check_buffer [simp]:
  "relocations (x86_encoder_check_buffer enc n) = relocations enc"
  by (simp add: x86_encoder_check_buffer_def)

lemma relocations_enc_append [simp]: "relocations (enc_append enc bs) = relocations enc"
  by (simp add: enc_append_def)

lemma relocations_add_relocation [simp]:
  "relocations (x86_encoder_add_relocation enc l r) =
     relocations enc @ [\<lparr>offset = length (buffer enc), label = l, relative = r\<rparr>]"
  by (simp add: x86_encoder_add_relocation_def Let_def buffer_size_def)

lemma prepare_modrm_rex_layout:
  "\<exists>p m. x86_encoder_prepare_modrm_rex opcode r1 r2 wide = [p, opcode, m]
     \<and> rex_layout p (wide \<noteq> 0) (bit r2 3) False (bit r1 3)
     \<and> modrm_layout m 3 (take_bit 3 r2) (take_bit 3 r1)"
  by (simp add: x86_encoder_prepare_modrm_rex_def rex_field_layout modrm_byte_layout
      and_8_iff_bit [symmetric])

lemma buffer_write_modrm_rex:
  "buffer (x86_encoder_write_modrm_rex enc opcode r1 r2 wide) =
     buffer enc @ x86_encoder_prepare_modrm_rex opcode r1 r2 wide"
  by (simp add: x86_encoder_write_modrm_rex_def)

text \<open>
  Claim C5. Each register-register ModR/M emitter (the general one with its \<open>wide\<close>
  argument, the comparison, and the four of 64, 32, 16 and 8 bits) appends exactly: the prefix \<open>0x66\<close> for the 16-bit width only; a REX byte
  \<open>0100_WRXB\<close> with \<open>W\<close> set for the 64-bit width only, \<open>X = 0\<close>, \<open>B\<close> bit 3 of
  the register that goes into \<open>rm\<close> and \<open>R\<close> bit 3 of the register that goes into
  \<open>reg\<close>, emitted whatever its bits are; the opcode byte, less one for the 8-bit width;
  a ModR/M byte with \<open>mod = 3\<close> and with \<open>reg\<close> and \<open>rm\<close> the low three bits of the
  two registers.
\<close>

theorem modrm_emitters_encoding:
  "(\<exists>p m. buffer (x86_encoder_write_modrm_rex enc opcode reg_1 reg_2 wide) =
        buffer enc @ [p, opcode, m]
      \<and> rex_layout p (wide \<noteq> 0) (bit reg_2 3) False (bit reg_1 3)
      \<and> modrm_layout m 3 (take_bit 3 reg_2) (take_bit 3 reg_1))
   \<and> (\<exists>p m. buffer (x86_encoder_write_cmp_reg enc reg_1 reg_2) = buffer enc @ [p, 0x39, m]
      \<and> rex_layout p True (bit reg_2 3) False (bit reg_1 3)
      \<and> modrm_layout m 3 (take_bit 3 reg_2) (take_bit 3 reg_1))
   \<and> (\<exists>p m. buffer (x86_encoder_write_modrm enc opcode reg_1 reg_2) = buffer enc @ [p, opcode, m]
      \<and> rex_layout p True (bit reg_2 3) False (bit reg_1 3)
      \<and> modrm_layout m 3 (take_bit 3 reg_2) (take_bit 3 reg_1))
   \<and> (\<exists>p m. buffer (x86_encoder_write_modrm_32 enc opcode reg_1 reg_2) = buffer enc @ [p, opcode, m]
      \<and> rex_layout p False (bit reg_2 3) False (bit reg_1 3)
      \<and> modrm_layout m 3 (take_bit 3 reg_2) (take_bit 3 reg_1))
   \<and> (\<exists>p m. buffer (x86_encoder_write_modrm_16 enc opcode reg_1 reg_2) =
        buffer enc @ [0x66, p, opcode, m]
      \<and> rex_layout p False (bit reg_2 3) False (bit reg_1 3)
      \<and> modrm_layout m 3 (take_bit 3 reg_2) (take_bit 3 reg_1))
   \<and> (\<exists>p m. buffer (x86_encoder_write_modrm_8 enc opcode reg_1 reg_2) =
        buffer enc @ [p, opcode - 1, m]
      \<and> rex_layout p False (bit reg_2 3) False (bit reg_1 3)
      \<and> modrm_layout m 3 (take_bit 3 reg_2) (take_bit 3 reg_1))"
proof -
  have rex: "\<exists>p m. buffer (x86_encoder_write_modrm_rex enc opcode reg_1 reg_2 wide) =
        buffer enc @ [p, opcode, m]
      \<and> rex_layout p (wide \<noteq> 0) (bit reg_2 3) False (bit reg_1 3)
      \<and> modrm_layout m 3 (take_bit 3 reg_2) (take_bit 3 reg_1)"
    using prepare_modrm_rex_layout [of opcode reg_1 reg_2 wide]
    by (auto simp: buffer_write_modrm_rex)
  have cmp: "\<exists>p m. buffer (x86_encoder_write_cmp_reg enc reg_1 reg_2) = buffer enc @ [p, 0x39, m]
      \<and> rex_layout p True (bit reg_2 3) False (bit reg_1 3)
      \<and> modrm_layout m 3 (take_bit 3 reg_2) (take_bit 3 reg_1)"
    using prepare_modrm_rex_layout [of X86_CMP_MODRM reg_1 reg_2 1]
    by (auto simp: x86_encoder_write_cmp_reg_def buffer_write_modrm_rex X86_CMP_MODRM_def)
  have w64: "\<exists>p m. buffer (x86_encoder_write_modrm enc opcode reg_1 reg_2) = buffer enc @ [p, opcode, m]
      \<and> rex_layout p True (bit reg_2 3) False (bit reg_1 3)
      \<and> modrm_layout m 3 (take_bit 3 reg_2) (take_bit 3 reg_1)"
    using prepare_modrm_rex_layout [of opcode reg_1 reg_2 1]
    by (auto simp: x86_encoder_write_modrm_def buffer_write_modrm_rex)
  have w32: "\<exists>p m. buffer (x86_encoder_write_modrm_32 enc opcode reg_1 reg_2) = buffer enc @ [p, opcode, m]
      \<and> rex_layout p False (bit reg_2 3) False (bit reg_1 3)
      \<and> modrm_layout m 3 (take_bit 3 reg_2) (take_bit 3 reg_1)"
    using prepare_modrm_rex_layout [of opcode reg_1 reg_2 0]
    by (auto simp: x86_encoder_write_modrm_32_def buffer_write_modrm_rex)
  have w16: "\<exists>p m. buffer (x86_encoder_write_modrm_16 enc opcode reg_1 reg_2) =
        buffer enc @ [0x66, p, opcode, m]
      \<and> rex_layout p False (bit reg_2 3) False (bit reg_1 3)
      \<and> modrm_layout m 3 (take_bit 3 reg_2) (take_bit 3 reg_1)"
    using prepare_modrm_rex_layout [of opcode reg_1 reg_2 0]
    by (auto simp: x86_encoder_write_modrm_16_def X86_OPERAND_SIZE_OVERRIDE_def)
  have w8: "\<exists>p m. buffer (x86_encoder_write_modrm_8 enc opcode reg_1 reg_2) =
        buffer enc @ [p, opcode - 1, m]
      \<and> rex_layout p False (bit reg_2 3) False (bit reg_1 3)
      \<and> modrm_layout m 3 (take_bit 3 reg_2) (take_bit 3 reg_1)"
    using prepare_modrm_rex_layout [of "opcode - 1" reg_1 reg_2 0]
    by (auto simp: x86_encoder_write_modrm_8_def buffer_write_modrm_rex)
  from rex cmp w64 w32 w16 w8 show ?thesis by blast
qed

text \<open>
  What the two jump emitters append and record. \<open>x86_encoder_write_jmp\<close> appends
  \<open>0xE8\<close> for a call and \<open>0xE9\<close> otherwise, \<open>x86_encoder_write_jmp_cond\<close>
  appends \<open>0x0F\<close> and the byte \<open>0x80 + cond\<close>; each then appends four zero bytes
  and records one relative relocation at the position of those four bytes. For a label id
  below \<open>2^31\<close> the label that linking reads from the relocation is the label id
  given.
\<close>

lemma write_jmp_effect:
  "buffer (x86_encoder_write_jmp enc call lbl) =
      buffer enc @ [if call \<noteq> 0 then 0xE8 else 0xE9, 0, 0, 0, 0]
   \<and> relocations (x86_encoder_write_jmp enc call lbl) =
      relocations enc @ [\<lparr>offset = length (buffer enc) + 1, label = word_of_nat lbl, relative = 1\<rparr>]"
  by (simp add: x86_encoder_write_jmp_def Let_def le_bytes_4_zero X86_CALL_REL32_def
      X86_JMP_REL32_def)

lemma write_jmp_cond_effect:
  "buffer (x86_encoder_write_jmp_cond enc cond lbl) =
      buffer enc @ [0x0F, 0x80 + ucast cond, 0, 0, 0, 0]
   \<and> relocations (x86_encoder_write_jmp_cond enc cond lbl) =
      relocations enc @ [\<lparr>offset = length (buffer enc) + 2, label = word_of_nat lbl, relative = 1\<rparr>]"
  by (simp add: x86_encoder_write_jmp_cond_def Let_def le_bytes_4_zero X86_0F_def
      X86_0F_JMP_COND_REL32_def ucast_plus_down)

lemma jmp_emitters_int_label:
  assumes "lbl < 2 ^ 31"
  shows "reloc_label (last (relocations (x86_encoder_write_jmp enc call lbl))) = lbl"
    and "reloc_label (last (relocations (x86_encoder_write_jmp_cond enc cond lbl))) = lbl"
  using int_label_roundtrip [OF assms]
  by (simp_all add: write_jmp_effect write_jmp_cond_effect reloc_label_def)

subsection \<open>Sequences of calls\<close>


lemma labels_check_buffer [simp]: "labels (x86_encoder_check_buffer enc n) = labels enc"
  by (simp add: x86_encoder_check_buffer_def)

lemma labels_enc_append [simp]: "labels (enc_append enc bs) = labels enc"
  by (simp add: enc_append_def)

lemma labels_add_relocation [simp]: "labels (x86_encoder_add_relocation enc l r) = labels enc"
  by (simp add: x86_encoder_add_relocation_def Let_def)

lemmas emitter_defs =
  x86_encoder_write_modrm_rex_def x86_encoder_write_jmp_def x86_encoder_write_jmp_cond_def
  x86_encoder_write_jmp_reg_def x86_encoder_write_cmp_reg_def x86_encoder_write_modrm_def
  x86_encoder_write_modrm_32_def x86_encoder_write_modrm_16_def x86_encoder_write_modrm_8_def
  x86_encoder_write_mov_imm_64_def x86_encoder_write_mov_imm_32_def
  x86_encoder_write_mov_imm_16_def x86_encoder_write_mov_imm_8_def x86_encoder_write_push_def
  x86_encoder_write_pop_def x86_encoder_write_ret_def x86_encoder_write_nop_def

lemma add_label_effect:
  "x86_encoder_add_label enc = (n, enc1) \<Longrightarrow>
     n = labels_size enc \<and> labels enc1 = labels enc @ [buffer_size enc] \<and> buffer enc1 = buffer enc
     \<and> relocations enc1 = relocations enc"
  by (auto simp: x86_encoder_add_label_def Let_def buffer_size_def split: if_splits)

lemma move_label_effect:
  "x86_encoder_move_label enc l = Some enc1 \<Longrightarrow>
     labels enc1 = (labels enc)[l := buffer_size enc] \<and> buffer enc1 = buffer enc
     \<and> relocations enc1 = relocations enc"
  by (auto simp: x86_encoder_move_label_def split: if_splits)

lemma do_call_labels:
  assumes "do_call enc c = Some (r, enc1)"
  shows "(c = Add_label \<longrightarrow> r = Some (labels_size enc) \<and> labels enc1 = labels enc @ [buffer_size enc])
       \<and> (\<forall>l. c = Move_label l \<longrightarrow> r = None \<and> labels enc1 = (labels enc)[l := buffer_size enc])
       \<and> (c \<noteq> Add_label \<and> (\<forall>l. c \<noteq> Move_label l) \<longrightarrow> r = None \<and> labels enc1 = labels enc)"
  using assms
  by (cases c)
     (auto simp: emitter_defs Let_def dest: add_label_effect move_label_effect
        split: prod.splits option.splits)

lemma do_call_buffer:
  assumes "do_call enc c = Some (r, enc1)"
  shows "\<exists>bs. buffer enc1 = buffer enc @ bs"
  using assms
  by (cases c)
     (auto simp: emitter_defs Let_def dest: add_label_effect move_label_effect
        split: prod.splits option.splits)

lemma do_call_labels_in_buffer:
  assumes "do_call enc c = Some (r, enc1)" and "labels_in_buffer enc"
  shows "labels_in_buffer enc1"
proof -
  from do_call_buffer [OF assms(1)] have le: "buffer_size enc \<le> buffer_size enc1"
    by (auto simp: buffer_size_def)
  have "set (labels enc1) \<subseteq> insert (buffer_size enc) (set (labels enc))"
  proof (cases "c = Add_label")
    case True
    with do_call_labels [OF assms(1)] show ?thesis by auto
  next
    case False
    show ?thesis
    proof (cases "\<exists>l. c = Move_label l")
      case True
      then obtain l where "c = Move_label l" ..
      with do_call_labels [OF assms(1)]
      have "labels enc1 = (labels enc)[l := buffer_size enc]" by simp
      then show ?thesis by (simp add: set_update_subset_insert)
    next
      case False
      with \<open>c \<noteq> Add_label\<close> do_call_labels [OF assms(1)] show ?thesis by auto
    qed
  qed
  then have sub: "set (labels enc1) \<subseteq> insert (buffer_size enc) (set (labels enc))" .
  show ?thesis
    unfolding labels_in_buffer_def
  proof
    fix l assume "l \<in> set (labels enc1)"
    with sub have "l = buffer_size enc \<or> l \<in> set (labels enc)" by auto
    with assms(2) le show "l \<le> buffer_size enc1" by (auto simp: labels_in_buffer_def)
  qed
qed

lemma do_calls_invariants:
  assumes "do_calls enc cs = Some (ids, enc1)" and "labels_in_buffer enc"
  shows "ids = [labels_size enc ..< labels_size enc1] \<and> labels_size enc \<le> labels_size enc1
       \<and> buffer_size enc \<le> buffer_size enc1 \<and> labels_in_buffer enc1"
  using assms
proof (induction cs arbitrary: enc ids)
  case Nil
  then show ?case by simp
next
  case (Cons c cs)
  from Cons.prems(1) obtain r e ids' where
    c: "do_call enc c = Some (r, e)" and cs: "do_calls e cs = Some (ids', enc1)"
    and ids: "ids = (case r of None \<Rightarrow> [] | Some n \<Rightarrow> [n]) @ ids'"
    by (auto split: option.splits prod.splits)
  from do_call_labels_in_buffer [OF c Cons.prems(2)] have inv: "labels_in_buffer e" .
  from Cons.IH [OF cs inv] have ih: "ids' = [labels_size e ..< labels_size enc1]"
    "labels_size e \<le> labels_size enc1" "buffer_size e \<le> buffer_size enc1"
    "labels_in_buffer enc1" by simp_all
  from do_call_buffer [OF c] have le: "buffer_size enc \<le> buffer_size e"
    by (auto simp: buffer_size_def)
  show ?case
  proof (cases "c = Add_label")
    case True
    with do_call_labels [OF c] have "r = Some (labels_size enc)"
      "labels_size e = Suc (labels_size enc)" by (simp_all add: labels_size_def)
    with ih le ids show ?thesis by (simp add: upt_conv_Cons)
  next
    case False
    with do_call_labels [OF c] have "r = None" "labels_size e = labels_size enc"
      by (cases "\<exists>l. c = Move_label l"; auto simp: labels_size_def)+
    with ih le ids show ?thesis by simp
  qed
qed

text \<open>
  Claim C7. For every sequence of calls of \<open>x86_encoder_add_label\<close>,
  \<open>x86_encoder_move_label\<close> and the emitters on a zeroed encoder: the label ids returned
  are \<open>0, 1, 2, ...\<close> in the order of the calls, one for each label there is; every
  label offset is at most the buffer size; the buffer size does not decrease under any
  further calls; a new label gets the buffer size at the time of the call as its offset,
  and so does a moved label.
\<close>

theorem label_invariants:
  assumes "do_calls x86_encoder_zero cs = Some (ids, enc)"
  shows "ids = [0 ..< labels_size enc]
       \<and> (\<forall>l \<in> set (labels enc). l \<le> buffer_size enc)
       \<and> (\<forall>cs' ids' enc'. do_calls enc cs' = Some (ids', enc') \<longrightarrow>
            buffer_size enc \<le> buffer_size enc')
       \<and> (\<forall>r enc'. do_call enc Add_label = Some (r, enc') \<longrightarrow>
            r = Some (labels_size enc) \<and> labels enc' = labels enc @ [buffer_size enc])
       \<and> (\<forall>l r enc'. do_call enc (Move_label l) = Some (r, enc') \<longrightarrow>
            labels enc' = (labels enc)[l := buffer_size enc]
          \<and> (l < labels_size enc \<longrightarrow> labels enc' ! l = buffer_size enc))"
proof -
  have z: "labels_in_buffer x86_encoder_zero"
    by (simp add: labels_in_buffer_def x86_encoder_zero_def)
  from do_calls_invariants [OF assms z]
  have a: "ids = [0 ..< labels_size enc]" and inv: "labels_in_buffer enc"
    by (simp_all add: labels_size_def x86_encoder_zero_def)
  have b: "\<forall>cs' ids' enc'. do_calls enc cs' = Some (ids', enc') \<longrightarrow>
            buffer_size enc \<le> buffer_size enc'"
    using do_calls_invariants [OF _ inv] by blast
  have c: "\<forall>r enc'. do_call enc Add_label = Some (r, enc') \<longrightarrow>
            r = Some (labels_size enc) \<and> labels enc' = labels enc @ [buffer_size enc]"
    using do_call_labels [of enc Add_label] by simp
  have d: "\<forall>l r enc'. do_call enc (Move_label l) = Some (r, enc') \<longrightarrow>
            labels enc' = (labels enc)[l := buffer_size enc]
          \<and> (l < labels_size enc \<longrightarrow> labels enc' ! l = buffer_size enc)"
  proof (intro allI impI)
    fix l r enc' assume "do_call enc (Move_label l) = Some (r, enc')"
    from do_call_labels [OF this]
    show "labels enc' = (labels enc)[l := buffer_size enc]
          \<and> (l < labels_size enc \<longrightarrow> labels enc' ! l = buffer_size enc)"
      by (simp add: labels_size_def)
  qed
  from inv have inv': "\<forall>l \<in> set (labels enc). l \<le> buffer_size enc"
    by (simp add: labels_in_buffer_def)
  from a inv' b c d show ?thesis by (intro conjI)
qed

lemma le_bytes_unfold:
  "le_bytes 1 w = [ucast w]"
  "le_bytes 2 w = [ucast w, ucast (drop_bit 8 w)]"
  "le_bytes 4 w = [ucast w, ucast (drop_bit 8 w), ucast (drop_bit 16 w), ucast (drop_bit 24 w)]"
  by (simp_all add: numeral_eq_Suc drop_bit_drop_bit)

lemmas encoder_eval =
  x86_encoder_zero_def emitter_defs x86_encoder_add_label_def x86_encoder_move_label_def
  x86_encoder_check_buffer_def enc_append_def x86_encoder_add_relocation_def Let_def
  buffer_size_def labels_size_def relocations_size_def


subsection \<open>Linking\<close>


lemma length_le_bytes [simp]: "length (le_bytes n w) = n"
  by (induction n arbitrary: w) simp_all



lemma store_bytes_length:
  "store_bytes mem off bs = Some mem' \<Longrightarrow> length mem' = length mem"
  by (auto simp: store_bytes_def split: if_splits)

lemma store_bytes_hit:
  "store_bytes mem off bs = Some mem' \<Longrightarrow> take (length bs) (drop off mem') = bs"
  by (auto simp: store_bytes_def split: if_splits)

lemma store_bytes_frame:
  assumes "store_bytes mem p bs = Some mem'" and "off + k \<le> p \<or> p + length bs \<le> off"
  shows "take k (drop off mem') = take k (drop off mem)"
proof -
  from assms(1) have fit: "p + length bs \<le> length mem"
    and mem': "mem' = take p mem @ bs @ drop (p + length bs) mem"
    by (auto simp: store_bytes_def split: if_splits)
  from assms(2) show ?thesis
  proof
    assume "off + k \<le> p"
    with fit show ?thesis
      by (simp add: mem' take_drop min_def)
  next
    assume "p + length bs \<le> off"
    with fit show ?thesis
      by (simp add: mem' drop_take)
  qed
qed

lemma store_bytes_fits:
  "off + length bs \<le> length mem \<Longrightarrow> \<exists>mem'. store_bytes mem off bs = Some mem'"
  by (simp add: store_bytes_def)


lemma apply_relocations_loop_cong:
  "labels enc1 = labels enc2 \<Longrightarrow>
     apply_relocations_loop enc1 rs t base = apply_relocations_loop enc2 rs t base"
  by (induction rs arbitrary: t) (simp_all add: labels_size_def Let_def split: option.splits)

lemma apply_relocations_loop_result:
  assumes "\<forall>r \<in> set rs. offset r + (if relative r \<noteq> 0 then 4 else 8) \<le> length t"
  shows "\<exists>t'. apply_relocations_loop enc rs t base =
            Some (if \<exists>r \<in> set rs. labels_size enc \<le> reloc_label r then 1 else 0, t')
          \<and> apply_relocations_loop enc
               (takeWhile (\<lambda>r. reloc_label r < labels_size enc) rs) t base = Some (0, t')"
  using assms
proof (induction rs arbitrary: t)
  case Nil
  show ?case by simp
next
  case (Cons r rs)
  show ?case
  proof (cases "labels_size enc \<le> reloc_label r")
    case True
    then show ?thesis by (simp add: reloc_label_def)
  next
    case False
    let ?bs = "if relative r \<noteq> 0
               then le_bytes 4 (word_of_int (int (labels enc ! reloc_label r) - int (offset r + 4)) :: 32 word)
               else le_bytes 8 (word_of_nat (base + labels enc ! reloc_label r) :: 64 word)"
    from Cons.prems have "offset r + length ?bs \<le> length t"
      by (cases "relative r = 0") simp_all
    from store_bytes_fits [OF this] obtain t1 where t1: "store_bytes t (offset r) ?bs = Some t1" ..
    from store_bytes_length [OF t1] Cons.prems
    have "\<forall>r \<in> set rs. offset r + (if relative r \<noteq> 0 then 4 else 8) \<le> length t1" by simp
    from Cons.IH [OF this] obtain t' where
      "apply_relocations_loop enc rs t1 base =
         Some (if \<exists>r \<in> set rs. labels_size enc \<le> reloc_label r then 1 else 0, t')"
      "apply_relocations_loop enc (takeWhile (\<lambda>r. reloc_label r < labels_size enc) rs) t1 base
         = Some (0, t')" by blast
    with False t1 show ?thesis
      by (cases "relative r = 0") (auto simp: reloc_label_def Let_def)
  qed
qed

lemma relocs_apart_snoc:
  "relocs_apart (rs @ [r]) \<longleftrightarrow> relocs_apart rs \<and> (\<forall>r' \<in> set rs. offset r' + 4 \<le> offset r)"
  by (induction rs) auto

lemma apply_relocations_loop_patches:
  assumes "relocs_apart rs"
      and "\<forall>r \<in> set rs. relative r \<noteq> 0"
      and "apply_relocations_loop enc rs t base = Some (0, t')"
  shows "(\<forall>r \<in> set rs. reloc_label r < labels_size enc \<and>
            take 4 (drop (offset r) t') =
              le_bytes 4 (word_of_int (int (labels enc ! reloc_label r) - int (offset r + 4)) :: 32 word))
       \<and> (\<forall>off n. (\<forall>r \<in> set rs. off + n \<le> offset r \<or> offset r + 4 \<le> off) \<longrightarrow>
            take n (drop off t') = take n (drop off t))"
  using assms
proof (induction rs arbitrary: t)
  case Nil
  then show ?case by simp
next
  case (Cons r rs)
  let ?w = "word_of_int (int (labels enc ! reloc_label r) - int (offset r + 4)) :: 32 word"
  from Cons.prems(2) have rel: "relative r \<noteq> 0" by simp
  from Cons.prems(3) rel have ok: "reloc_label r < labels_size enc"
    by (auto simp: reloc_label_def Let_def split: if_splits)
  with Cons.prems(3) rel obtain t1 where
    t1: "store_bytes t (offset r) (le_bytes 4 ?w) = Some t1"
    and rest: "apply_relocations_loop enc rs t1 base = Some (0, t')"
    by (auto simp: reloc_label_def Let_def split: option.splits)
  from Cons.prems(1,2) have "relocs_apart rs" "\<forall>r \<in> set rs. relative r \<noteq> 0" by simp_all
  from Cons.IH [OF this rest]
  have ih: "\<forall>r \<in> set rs. reloc_label r < labels_size enc \<and>
            take 4 (drop (offset r) t') =
              le_bytes 4 (word_of_int (int (labels enc ! reloc_label r) - int (offset r + 4)) :: 32 word)"
    and frame: "\<And>off n. (\<forall>r \<in> set rs. off + n \<le> offset r \<or> offset r + 4 \<le> off) \<Longrightarrow>
            take n (drop off t') = take n (drop off t1)"
    by blast+
  from Cons.prems(1) have "\<forall>r' \<in> set rs. offset r + 4 \<le> offset r' \<or> offset r' + 4 \<le> offset r"
    by simp
  from frame [OF this] store_bytes_hit [OF t1]
  have here: "take 4 (drop (offset r) t') = le_bytes 4 ?w" by simp
  have "take n (drop off t') = take n (drop off t)"
    if "\<forall>r' \<in> set (r # rs). off + n \<le> offset r' \<or> offset r' + 4 \<le> off" for off n
  proof -
    from that have "take n (drop off t') = take n (drop off t1)" by (intro frame) simp
    moreover from that have "off + n \<le> offset r \<or> offset r + length (le_bytes 4 ?w) \<le> off"
      by simp
    from store_bytes_frame [OF t1 this] have "take n (drop off t1) = take n (drop off t)" .
    ultimately show ?thesis by simp
  qed
  with ok here ih show ?case by simp
qed

lemma apply_relocations_loop_length:
  "apply_relocations_loop enc rs t base = Some (k, t') \<Longrightarrow> length t' = length t"
proof (induction rs arbitrary: t)
  case Nil
  then show ?case by simp
next
  case (Cons r rs)
  show ?case
  proof (cases "labels_size enc \<le> reloc_label r")
    case True
    with Cons.prems show ?thesis by (simp add: reloc_label_def)
  next
    case False
    with Cons.prems obtain bs t1 where t1: "store_bytes t (offset r) bs = Some t1"
      and rest: "apply_relocations_loop enc rs t1 base = Some (k, t')"
      by (auto simp: reloc_label_def Let_def split: option.splits if_splits)
    from Cons.IH [OF rest] store_bytes_length [OF t1] show ?thesis by simp
  qed
qed

lemma relocs_apart_append:
  "relocs_apart (xs @ ys) \<longleftrightarrow>
     relocs_apart xs \<and> relocs_apart ys \<and> (\<forall>x \<in> set xs. \<forall>y \<in> set ys. offset x + 4 \<le> offset y)"
  by (induction xs) auto

lemma relocs_apart_split:
  assumes "relocs_apart rs"
  shows "relocs_apart (takeWhile P rs)"
    and "\<forall>x \<in> set (takeWhile P rs). \<forall>y \<in> set (dropWhile P rs). offset x + 4 \<le> offset y"
proof -
  from assms have "relocs_apart (takeWhile P rs @ dropWhile P rs)" by simp
  then show "relocs_apart (takeWhile P rs)"
    and "\<forall>x \<in> set (takeWhile P rs). \<forall>y \<in> set (dropWhile P rs). offset x + 4 \<le> offset y"
    unfolding relocs_apart_append by blast+
qed

lemma take_1_drop: "i < length xs \<Longrightarrow> take (Suc 0) (drop i xs) = [xs ! i]"
  by (simp add: take_Suc_conv_app_nth)


lemma relocations_placed_snoc:
  assumes "relocations_placed enc"
      and "relocations enc1 = relocations enc @ [\<lparr>offset = buffer_size enc + k, label = l, relative = 1\<rparr>]"
      and "buffer_size enc1 = buffer_size enc + k + 4"
  shows "relocations_placed enc1"
  using assms by (auto simp: relocations_placed_def relocs_apart_snoc)

lemma relocations_placed_same:
  assumes "relocations_placed enc" and "relocations enc1 = relocations enc"
      and "buffer_size enc \<le> buffer_size enc1"
  shows "relocations_placed enc1"
  using assms by (auto simp: relocations_placed_def)

lemma do_call_relocations:
  assumes "do_call enc c = Some (r, enc1)"
  shows "relocations enc1 = relocations enc
       \<or> (\<exists>k l. relocations enc1 =
             relocations enc @ [\<lparr>offset = buffer_size enc + k, label = l, relative = 1\<rparr>]
           \<and> buffer_size enc1 = buffer_size enc + k + 4
           \<and> drop (buffer_size enc + k) (buffer enc1) = [0, 0, 0, 0])"
proof (cases "(\<exists>cl l. c = Write_jmp cl l) \<or> (\<exists>cd l. c = Write_jmp_cond cd l)")
  case True
  then show ?thesis
  proof
    assume "\<exists>cl l. c = Write_jmp cl l"
    then obtain cl l where "c = Write_jmp cl l" by blast
    with assms write_jmp_effect [of enc cl l] show ?thesis
      by (auto simp: buffer_size_def)
  next
    assume "\<exists>cd l. c = Write_jmp_cond cd l"
    then obtain cd l where "c = Write_jmp_cond cd l" by blast
    with assms write_jmp_cond_effect [of enc cd l] show ?thesis
      by (auto simp: buffer_size_def)
  qed
next
  case False
  with assms have "relocations enc1 = relocations enc"
    by (cases c)
       (auto simp: emitter_defs Let_def dest: add_label_effect move_label_effect
          split: prod.splits option.splits)
  then show ?thesis ..
qed

lemma do_call_relocations_placed:
  assumes "do_call enc c = Some (r, enc1)" and "relocations_placed enc"
  shows "relocations_placed enc1"
proof -
  from do_call_buffer [OF assms(1)] have le: "buffer_size enc \<le> buffer_size enc1"
    by (auto simp: buffer_size_def)
  from do_call_relocations [OF assms(1)] show ?thesis
  proof
    assume "relocations enc1 = relocations enc"
    from relocations_placed_same [OF assms(2) this le] show ?thesis .
  next
    assume "\<exists>k l. relocations enc1 =
             relocations enc @ [\<lparr>offset = buffer_size enc + k, label = l, relative = 1\<rparr>]
           \<and> buffer_size enc1 = buffer_size enc + k + 4
           \<and> drop (buffer_size enc + k) (buffer enc1) = [0, 0, 0, 0]"
    then obtain k l where "relocations enc1 =
             relocations enc @ [\<lparr>offset = buffer_size enc + k, label = l, relative = 1\<rparr>]"
      "buffer_size enc1 = buffer_size enc + k + 4" by blast
    from relocations_placed_snoc [OF assms(2) this] show ?thesis .
  qed
qed

lemma do_calls_relocations_placed:
  assumes "do_calls enc cs = Some (ids, enc1)" and "relocations_placed enc"
  shows "relocations_placed enc1"
  using assms
proof (induction cs arbitrary: enc ids)
  case Nil
  then show ?case by simp
next
  case (Cons c cs)
  from Cons.prems(1) obtain r e ids' where
    c: "do_call enc c = Some (r, e)" and cs: "do_calls e cs = Some (ids', enc1)"
    by (auto split: option.splits prod.splits)
  from Cons.IH [OF cs do_call_relocations_placed [OF c Cons.prems(2)]] show ?case .
qed

lemma relocations_placed_zero: "relocations_placed x86_encoder_zero"
  by (simp add: relocations_placed_def x86_encoder_zero_def)

text \<open>Until linking, every placeholder holds the four zero bytes that were emitted.\<close>

lemma do_call_placeholders_zero:
  assumes "do_call enc c = Some (r, enc1)" and "relocations_placed enc"
      and "\<forall>r \<in> set (relocations enc). take 4 (drop (offset r) (buffer enc)) = [0, 0, 0, 0]"
  shows "\<forall>r \<in> set (relocations enc1). take 4 (drop (offset r) (buffer enc1)) = [0, 0, 0, 0]"
proof -
  from do_call_buffer [OF assms(1)] obtain bs where bs: "buffer enc1 = buffer enc @ bs" ..
  have old: "take 4 (drop (offset r) (buffer enc1)) = [0, 0, 0, 0]"
    if "r \<in> set (relocations enc)" for r
  proof -
    from that assms(2) have "offset r + 4 \<le> length (buffer enc)"
      by (simp add: relocations_placed_def buffer_size_def)
    then have "take 4 (drop (offset r) (buffer enc1)) = take 4 (drop (offset r) (buffer enc))"
      by (simp add: bs)
    with that assms(3) show ?thesis by simp
  qed
  from do_call_relocations [OF assms(1)] show ?thesis
  proof
    assume "relocations enc1 = relocations enc"
    with old show ?thesis by simp
  next
    assume "\<exists>k l. relocations enc1 =
             relocations enc @ [\<lparr>offset = buffer_size enc + k, label = l, relative = 1\<rparr>]
           \<and> buffer_size enc1 = buffer_size enc + k + 4
           \<and> drop (buffer_size enc + k) (buffer enc1) = [0, 0, 0, 0]"
    then obtain k l where new:
      "relocations enc1 =
         relocations enc @ [\<lparr>offset = buffer_size enc + k, label = l, relative = 1\<rparr>]"
      "drop (buffer_size enc + k) (buffer enc1) = [0, 0, 0, 0]" by blast
    from new(2) have "take 4 (drop (buffer_size enc + k) (buffer enc1)) = [0, 0, 0, 0]" by simp
    with old new(1) show ?thesis by auto
  qed
qed

lemma do_calls_placeholders_zero:
  assumes "do_calls enc cs = Some (ids, enc1)" and "relocations_placed enc"
      and "\<forall>r \<in> set (relocations enc). take 4 (drop (offset r) (buffer enc)) = [0, 0, 0, 0]"
  shows "\<forall>r \<in> set (relocations enc1). take 4 (drop (offset r) (buffer enc1)) = [0, 0, 0, 0]"
  using assms
proof (induction cs arbitrary: enc ids)
  case Nil
  then show ?case by simp
next
  case (Cons c cs)
  from Cons.prems(1) obtain r e ids' where
    c: "do_call enc c = Some (r, e)" and cs: "do_calls e cs = Some (ids', enc1)"
    by (auto split: option.splits prod.splits)
  from Cons.IH [OF cs do_call_relocations_placed [OF c Cons.prems(2)]
      do_call_placeholders_zero [OF c Cons.prems(2,3)]]
  show ?case .
qed






text \<open>
  Claim C2, as the code has it. In every encoder that a sequence of calls on a zeroed
  encoder leaves, \<open>x86_encoder_apply_relocations\<close> returns 1 exactly when some recorded
  relocation names a label id that is not below the number of labels, and 0 otherwise.
  The linking is partial on failure. The four placeholder bytes of every relocation
  recorded before the first offending one hold the displacement to its label, in little
  endian; the placeholders of the offending relocation and of those recorded after it
  still hold their four zero bytes; every byte outside the patched placeholders is as it
  was, and the buffer keeps its size.
\<close>

theorem apply_relocations_partial:
  assumes "do_calls x86_encoder_zero cs = Some (ids, enc)"
  shows "\<exists>t. x86_encoder_apply_relocations enc base =
             Some (if \<exists>r \<in> set (relocations enc). labels_size enc \<le> reloc_label r then 1 else 0,
                   enc\<lparr>buffer := t\<rparr>)
          \<and> length t = buffer_size enc
          \<and> (\<forall>r \<in> set (takeWhile (\<lambda>r. reloc_label r < labels_size enc) (relocations enc)).
                take 4 (drop (offset r) t) =
                  le_bytes 4
                    (word_of_int (int (labels enc ! reloc_label r) - int (offset r + 4)) :: 32 word))
          \<and> (\<forall>r \<in> set (dropWhile (\<lambda>r. reloc_label r < labels_size enc) (relocations enc)).
                take 4 (drop (offset r) t) = [0, 0, 0, 0])
          \<and> (\<forall>i < length t.
                (\<forall>r \<in> set (takeWhile (\<lambda>r. reloc_label r < labels_size enc) (relocations enc)).
                   i < offset r \<or> offset r + 4 \<le> i)
                \<longrightarrow> t ! i = buffer enc ! i)"
proof -
  let ?rs = "relocations enc"
  let ?known = "\<lambda>r. reloc_label r < labels_size enc"
  let ?good = "takeWhile ?known ?rs"
  let ?bad = "dropWhile ?known ?rs"
  from do_calls_relocations_placed [OF assms relocations_placed_zero]
  have placed: "relocations_placed enc" .
  then have apart: "relocs_apart ?rs" and rel: "\<forall>r \<in> set ?rs. relative r \<noteq> 0"
    by (simp_all add: relocations_placed_def)
  from placed have fit:
    "\<forall>r \<in> set ?rs. offset r + (if relative r \<noteq> 0 then 4 else 8) \<le> length (buffer enc)"
    by (simp add: relocations_placed_def buffer_size_def)
  have "\<forall>r \<in> set (relocations x86_encoder_zero).
          take 4 (drop (offset r) (buffer x86_encoder_zero)) = [0, 0, 0, 0]"
    by (simp add: x86_encoder_zero_def)
  from do_calls_placeholders_zero [OF assms relocations_placed_zero this]
  have zero: "\<forall>r \<in> set ?rs. take 4 (drop (offset r) (buffer enc)) = [0, 0, 0, 0]" .
  from apply_relocations_loop_result [OF fit, of enc base] obtain t where
    t: "apply_relocations_loop enc ?rs (buffer enc) base =
          Some (if \<exists>r \<in> set ?rs. labels_size enc \<le> reloc_label r then 1 else 0, t)"
       "apply_relocations_loop enc ?good (buffer enc) base = Some (0, t)"
    by blast
  from apply_relocations_loop_length [OF t(1)] have len: "length t = buffer_size enc"
    by (simp add: buffer_size_def)
  from rel have good_rel: "\<forall>r \<in> set ?good. relative r \<noteq> 0"
    by (blast dest: set_takeWhileD)
  from apply_relocations_loop_patches [OF relocs_apart_split(1) [OF apart] good_rel t(2)]
  have patched: "\<forall>r \<in> set ?good. take 4 (drop (offset r) t) =
      le_bytes 4 (word_of_int (int (labels enc ! reloc_label r) - int (offset r + 4)) :: 32 word)"
    and frame: "\<And>off n. (\<forall>r \<in> set ?good. off + n \<le> offset r \<or> offset r + 4 \<le> off) \<Longrightarrow>
      take n (drop off t) = take n (drop off (buffer enc))"
    by blast+
  have unpatched: "\<forall>r \<in> set ?bad. take 4 (drop (offset r) t) = [0, 0, 0, 0]"
  proof
    fix r assume r: "r \<in> set ?bad"
    with relocs_apart_split(2) [OF apart, of ?known]
    have "\<forall>g \<in> set ?good. offset r + 4 \<le> offset g \<or> offset g + 4 \<le> offset r" by blast
    from frame [OF this] have "take 4 (drop (offset r) t) = take 4 (drop (offset r) (buffer enc))" .
    moreover from r have "r \<in> set ?rs" by (rule set_dropWhileD)
    ultimately show "take 4 (drop (offset r) t) = [0, 0, 0, 0]" using zero by simp
  qed
  have bytes: "\<forall>i < length t. (\<forall>r \<in> set ?good. i < offset r \<or> offset r + 4 \<le> i)
                \<longrightarrow> t ! i = buffer enc ! i"
  proof (intro allI impI)
    fix i assume i: "i < length t" and out: "\<forall>r \<in> set ?good. i < offset r \<or> offset r + 4 \<le> i"
    from out have "\<forall>r \<in> set ?good. i + 1 \<le> offset r \<or> offset r + 4 \<le> i" by auto
    from frame [OF this] have "take 1 (drop i t) = take 1 (drop i (buffer enc))" .
    moreover from i len have "i < length (buffer enc)" by (simp add: buffer_size_def)
    ultimately show "t ! i = buffer enc ! i" using i by (simp add: take_1_drop)
  qed
  from t(1) have "x86_encoder_apply_relocations enc base =
      Some (if \<exists>r \<in> set ?rs. labels_size enc \<le> reloc_label r then 1 else 0, enc\<lparr>buffer := t\<rparr>)"
    by (simp add: x86_encoder_apply_relocations_def x86_encoder_apply_relocations_in_memory_def)
  with len patched unpatched bytes show ?thesis by blast
qed

subsection \<open>The example encoders\<close>


lemma jump_back_run: "do_calls x86_encoder_zero jump_back_calls = Some ([0, 1], jump_back_encoder)"
  by (simp add: jump_back_calls_def jump_back_encoder_def encoder_eval le_bytes_unfold
      X86_NOP_def X86_RET_def X86_JMP_REL32_def)

lemma unknown_label_run:
  "do_calls x86_encoder_zero unknown_label_calls = Some ([0], unknown_label_encoder)"
  by (simp add: unknown_label_calls_def unknown_label_encoder_def encoder_eval le_bytes_unfold
      X86_JMP_REL32_def)

lemma narrowed_label_run:
  "do_calls x86_encoder_zero narrowed_label_calls = Some ([0], narrowed_label_encoder)"
  by (simp add: narrowed_label_calls_def narrowed_label_encoder_def encoder_eval le_bytes_unfold
      X86_JMP_REL32_def)


theorem label_invariants_witness:
  "do_calls x86_encoder_zero jump_back_calls = Some ([0, 1], jump_back_encoder)
   \<and> [0, 1] = [0 ..< labels_size jump_back_encoder]
   \<and> list_all (\<lambda>l. l \<le> buffer_size jump_back_encoder) (labels jump_back_encoder)"
proof -
  note run = jump_back_run
  from label_invariants [OF run] show ?thesis using run by (simp add: list_all_iff)
qed


theorem apply_relocations_partial_witness:
  "do_calls x86_encoder_zero unknown_label_calls = Some ([0], unknown_label_encoder)
   \<and> (\<exists>t. x86_encoder_apply_relocations unknown_label_encoder 0 =
            Some (1, unknown_label_encoder\<lparr>buffer := t\<rparr>)
        \<and> length t = 10
        \<and> take 4 (drop 1 t) = [0xFB, 0xFF, 0xFF, 0xFF]
        \<and> take 4 (drop 6 t) = [0, 0, 0, 0]
        \<and> t ! 0 = 0xE9 \<and> t ! 5 = 0xE9)"
proof -
  have known: "takeWhile (\<lambda>r. reloc_label r < labels_size unknown_label_encoder)
                 (relocations unknown_label_encoder) = [\<lparr>offset = 1, label = 0, relative = 1\<rparr>]"
    and unknown: "dropWhile (\<lambda>r. reloc_label r < labels_size unknown_label_encoder)
                 (relocations unknown_label_encoder) = [\<lparr>offset = 6, label = 7, relative = 1\<rparr>]"
    by (simp_all add: unknown_label_encoder_def labels_size_def reloc_label_def)
  from apply_relocations_partial [OF unknown_label_run, of 0] obtain t where
    ret: "x86_encoder_apply_relocations unknown_label_encoder 0 =
          Some (if \<exists>r \<in> set (relocations unknown_label_encoder).
                     labels_size unknown_label_encoder \<le> reloc_label r then 1 else 0,
                unknown_label_encoder\<lparr>buffer := t\<rparr>)"
    and len: "length t = buffer_size unknown_label_encoder"
    and good: "\<forall>r \<in> set (takeWhile (\<lambda>r. reloc_label r < labels_size unknown_label_encoder)
                 (relocations unknown_label_encoder)).
          take 4 (drop (offset r) t) =
            le_bytes 4 (word_of_int (int (labels unknown_label_encoder ! reloc_label r)
              - int (offset r + 4)) :: 32 word)"
    and bad: "\<forall>r \<in> set (dropWhile (\<lambda>r. reloc_label r < labels_size unknown_label_encoder)
                 (relocations unknown_label_encoder)). take 4 (drop (offset r) t) = [0, 0, 0, 0]"
    and bytes: "\<forall>i < length t.
          (\<forall>r \<in> set (takeWhile (\<lambda>r. reloc_label r < labels_size unknown_label_encoder)
                 (relocations unknown_label_encoder)). i < offset r \<or> offset r + 4 \<le> i)
          \<longrightarrow> t ! i = buffer unknown_label_encoder ! i"
    by blast
  from ret have r1: "x86_encoder_apply_relocations unknown_label_encoder 0 =
      Some (1, unknown_label_encoder\<lparr>buffer := t\<rparr>)"
    by (simp add: unknown_label_encoder_def labels_size_def reloc_label_def)
  from len have r2: "length t = 10"
    by (simp add: unknown_label_encoder_def buffer_size_def)
  from good have r3: "take 4 (drop 1 t) = [0xFB, 0xFF, 0xFF, 0xFF]"
    unfolding known
    by (simp add: unknown_label_encoder_def reloc_label_def le_bytes_unfold)
  from bad have r4: "take 4 (drop 6 t) = [0, 0, 0, 0]"
    unfolding unknown by simp
  have "t ! 0 = buffer unknown_label_encoder ! 0"
    using bytes [unfolded known, rule_format, of 0] r2 by simp
  moreover have "t ! 5 = buffer unknown_label_encoder ! 5"
    using bytes [unfolded known, rule_format, of 5] r2 by simp
  ultimately have r5: "t ! 0 = 0xE9" "t ! 5 = 0xE9"
    by (simp_all add: unknown_label_encoder_def)
  from unknown_label_run r1 r2 r3 r4 r5 show ?thesis by blast
qed

text \<open>
  Claim C2 as it is stated fails: linking the encoder of a jump to its only label and a
  jump to the unknown label 7 returns 1 and has patched the first jump.
\<close>

theorem apply_relocations_partial_counterexample:
  "do_calls x86_encoder_zero unknown_label_calls = Some ([0], unknown_label_encoder)
   \<and> buffer unknown_label_encoder = [0xE9, 0, 0, 0, 0, 0xE9, 0, 0, 0, 0]
   \<and> x86_encoder_apply_relocations unknown_label_encoder 0 =
       Some (1, unknown_label_encoder\<lparr>buffer := [0xE9, 0xFB, 0xFF, 0xFF, 0xFF, 0xE9, 0, 0, 0, 0]\<rparr>)"
  using unknown_label_run
  by (simp add: unknown_label_encoder_def x86_encoder_apply_relocations_def
      x86_encoder_apply_relocations_in_memory_def labels_size_def store_bytes_def le_bytes_unfold)

text \<open>
  Claim C6 fails for a label id that does not fit the \<open>int\<close> of the relocation record.
  \<open>x86_encoder_write_jmp\<close> and \<open>x86_encoder_write_jmp_cond\<close> take the label as a
  \<open>size_t\<close>, as \<open>x86_encoder_add_label\<close>, \<open>x86_encoder_move_label\<close> and the loop of
  linking have it, but \<open>x86_encoder_add_relocation\<close> and \<open>struct x86_relocation\<close> hold
  it as an \<open>int\<close>. The opcode and the four zero bytes are appended as claimed, but the
  jump to the label id \<open>2^32\<close> records a relocation whose label is 0, not the label id
  given. With one label in the encoder, label \<open>2^32\<close> does not exist, yet linking
  returns success and patches the jump with the displacement to label 0.
\<close>

theorem jmp_label_narrowing:
  "buffer (x86_encoder_write_jmp x86_encoder_zero 0 4294967296) = [0xE9, 0, 0, 0, 0]
   \<and> relocations (x86_encoder_write_jmp x86_encoder_zero 0 4294967296) =
       [\<lparr>offset = 1, label = 0, relative = 1\<rparr>]
   \<and> buffer (x86_encoder_write_jmp_cond x86_encoder_zero 4 4294967296) = [0x0F, 0x84, 0, 0, 0, 0]
   \<and> relocations (x86_encoder_write_jmp_cond x86_encoder_zero 4 4294967296) =
       [\<lparr>offset = 2, label = 0, relative = 1\<rparr>]
   \<and> reloc_label \<lparr>offset = 1, label = 0, relative = 1\<rparr> = 0
   \<and> do_calls x86_encoder_zero narrowed_label_calls = Some ([0], narrowed_label_encoder)
   \<and> labels_size narrowed_label_encoder = 1
   \<and> x86_encoder_apply_relocations narrowed_label_encoder 0 =
       Some (0, narrowed_label_encoder\<lparr>buffer := [0xE9, 0xFB, 0xFF, 0xFF, 0xFF]\<rparr>)"
proof -
  have "buffer (x86_encoder_write_jmp x86_encoder_zero 0 4294967296) = [0xE9, 0, 0, 0, 0]"
    and "relocations (x86_encoder_write_jmp x86_encoder_zero 0 4294967296) =
       [\<lparr>offset = 1, label = 0, relative = 1\<rparr>]"
    by (simp_all add: write_jmp_effect x86_encoder_zero_def)
  moreover
  have "buffer (x86_encoder_write_jmp_cond x86_encoder_zero 4 4294967296) = [0x0F, 0x84, 0, 0, 0, 0]"
    and "relocations (x86_encoder_write_jmp_cond x86_encoder_zero 4 4294967296) =
       [\<lparr>offset = 2, label = 0, relative = 1\<rparr>]"
    by (simp_all add: write_jmp_cond_effect x86_encoder_zero_def)
  moreover
  have "reloc_label \<lparr>offset = 1, label = 0, relative = 1\<rparr> = 0"
    by (simp add: reloc_label_def)
  moreover
  have "labels_size narrowed_label_encoder = 1"
    by (simp add: narrowed_label_encoder_def labels_size_def)
  moreover
  have "x86_encoder_apply_relocations narrowed_label_encoder 0 =
       Some (0, narrowed_label_encoder\<lparr>buffer := [0xE9, 0xFB, 0xFF, 0xFF, 0xFF]\<rparr>)"
    by (simp add: narrowed_label_encoder_def x86_encoder_apply_relocations_def
        x86_encoder_apply_relocations_in_memory_def labels_size_def store_bytes_def le_bytes_unfold)
  ultimately show ?thesis using narrowed_label_run by blast
qed

section \<open>Properties of the analyzer\<close>

subsection \<open>The scan for jumps into a lifetime\<close>

lemma scan_previous_labels_scanned:
  assumes "scan_previous_labels infs minimum pos m = Some m'"
  shows "previous_labels_scanned infs minimum pos m m'"
proof (rule scan_previous_labels.raw_induct [where P = previous_labels_scanned, OF _ assms])
  fix scan infs minimum pos m m'
  assume IH: "\<And>a b c d y. scan a b c d = Some y \<Longrightarrow> previous_labels_scanned a b c d y"
    and body: "(if minimum \<le> pos
        then if 0 \<le> pos \<and> pos < int (length infs)
             then scan infs minimum (previous_label (infs ! nat pos))
                   (if m < jump_from (infs ! nat pos) then jump_from (infs ! nat pos) else m)
             else None
        else Some m) = Some m'"
  show "previous_labels_scanned infs minimum pos m m'"
  proof (cases "minimum \<le> pos")
    case False
    with body show ?thesis by (simp add: previous_labels_scanned_def)
  next
    case True
    with body have rng: "0 \<le> pos" "pos < int (length infs)"
      by (auto split: if_splits)
    let ?p = "nat pos"
    let ?m1 = "if m < jump_from (infs ! ?p) then jump_from (infs ! ?p) else m"
    from body True rng have rec: "scan infs minimum (previous_label (infs ! ?p)) ?m1 = Some m'"
      by (simp split: if_splits)
    show ?thesis
      unfolding previous_labels_scanned_def
    proof
      assume chain: "chain_ok infs"
      from IH [OF rec] chain have ih: "?m1 \<le> m'"
        "\<forall>j. minimum \<le> int j \<and> int j \<le> previous_label (infs ! ?p) \<longrightarrow>
               jump_from (infs ! j) \<le> m' \<or> jump_from (infs ! j) < 0"
        "m' = ?m1 \<or> (\<exists>j < length infs. m' = jump_from (infs ! j))"
        unfolding previous_labels_scanned_def by blast+
      from rng have p: "?p < length infs" by simp
      from chain p have ch: "\<And>k. k < ?p \<Longrightarrow> previous_label (infs ! ?p) < int k \<Longrightarrow>
          jump_from (infs ! k) < 0"
        by (simp add: chain_ok_def)
      have a: "m \<le> m'" using ih(1) by (simp split: if_splits)
      have b: "jump_from (infs ! j) \<le> m' \<or> jump_from (infs ! j) < 0"
        if "minimum \<le> int j" "int j \<le> pos" for j
      proof (cases "j = ?p")
        case True
        with ih(1) show ?thesis by (simp split: if_splits)
      next
        case False
        with that rng have lt: "j < ?p" by simp
        show ?thesis
        proof (cases "int j \<le> previous_label (infs ! ?p)")
          case True
          with ih(2) that show ?thesis by blast
        next
          case False
          with ch [OF lt] show ?thesis by simp
        qed
      qed
      have c: "m' = m \<or> (\<exists>j < length infs. m' = jump_from (infs ! j))"
        using ih(3) p by (auto split: if_splits)
      from a b c rng show "m \<le> m'
        \<and> (minimum \<le> pos \<longrightarrow> 0 \<le> pos \<and> pos < int (length infs))
        \<and> (\<forall>j. minimum \<le> int j \<and> int j \<le> pos \<longrightarrow>
              jump_from (infs ! j) \<le> m' \<or> jump_from (infs ! j) < 0)
        \<and> (m' = m \<or> (\<exists>j < length infs. m' = jump_from (infs ! j)))" by blast
    qed
  qed
qed

lemma scan_previous_labels_sound:
  assumes "scan_previous_labels infs minimum pos m = Some m'" and "chain_ok infs"
  shows "m \<le> m'"
    and "minimum \<le> pos \<Longrightarrow> 0 \<le> pos \<and> pos < int (length infs)"
    and "\<And>j. minimum \<le> int j \<Longrightarrow> int j \<le> pos \<Longrightarrow>
             jump_from (infs ! j) \<le> m' \<or> jump_from (infs ! j) < 0"
    and "m' = m \<or> (\<exists>j < length infs. m' = jump_from (infs ! j))"
  using scan_previous_labels_scanned [OF assms(1)] assms(2)
  unfolding previous_labels_scanned_def by blast+

lemma scan_jumps_scanned:
  assumes "scan_jumps infs minimum m = Some M"
  shows "jumps_scanned infs minimum m M"
proof (rule scan_jumps.raw_induct [where P = jumps_scanned, OF _ assms])
  fix scan infs minimum m M
  assume IH: "\<And>a b c y. scan a b c = Some y \<Longrightarrow> jumps_scanned a b c y"
    and body: "Option.bind (scan_previous_labels infs minimum m m)
        (\<lambda>m'. if m + 1 \<le> m' then scan infs (m + 1) m' else Some (m + 1)) = Some M"
  from body obtain m' where
    inner: "scan_previous_labels infs minimum m m = Some m'"
    and rest: "(if m + 1 \<le> m' then scan infs (m + 1) m' else Some (m + 1)) = Some M"
    by (auto simp: bind_eq_Some_conv)
  show "jumps_scanned infs minimum m M"
    unfolding jumps_scanned_def
  proof
    assume pre: "chain_ok infs \<and> 0 \<le> minimum \<and> minimum \<le> m"
    then have chain: "chain_ok infs" and min: "0 \<le> minimum" "minimum \<le> m" by simp_all
    note s = scan_previous_labels_sound [OF inner chain]
    from s(2) [OF min(2)] have m: "0 \<le> m" "m < int (length infs)" by simp_all
    show "m < M \<and> M \<le> int (length infs)
       \<and> (\<forall>j. minimum \<le> int j \<and> int j < M \<longrightarrow> jump_from (infs ! j) < M)"
    proof (cases "m + 1 \<le> m'")
      case True
      with rest have "scan infs (m + 1) m' = Some M" by simp
      from IH [OF this] chain m(1) True
      have ih: "m' < M" "M \<le> int (length infs)"
        "\<And>j. m + 1 \<le> int j \<Longrightarrow> int j < M \<Longrightarrow> jump_from (infs ! j) < M"
        unfolding jumps_scanned_def by simp_all
      have "jump_from (infs ! j) < M" if "minimum \<le> int j" "int j < M" for j
      proof (cases "int j \<le> m")
        case True
        from s(3) [OF that(1) True] ih(1) s(1) m(1) show ?thesis by linarith
      next
        case False
        with ih(3) that show ?thesis by simp
      qed
      with ih s(1) True show ?thesis by simp
    next
      case False
      with rest s(1) have M: "M = m + 1" "m' = m" by simp_all
      have "jump_from (infs ! j) < M" if "minimum \<le> int j" "int j < M" for j
        using s(3) [of j] that M m(1) by auto
      with M m show ?thesis by simp
    qed
  qed
qed

lemma scan_jumps_sound:
  assumes "scan_jumps infs minimum m = Some M" and "chain_ok infs"
      and "0 \<le> minimum" and "minimum \<le> m"
  shows "m < M" and "M \<le> int (length infs)"
    and "\<And>j. minimum \<le> int j \<Longrightarrow> int j < M \<Longrightarrow> jump_from (infs ! j) < M"
  using scan_jumps_scanned [OF assms(1)] assms(2-4)
  unfolding jumps_scanned_def by blast+

lemma scan_previous_labels_total:
  assumes "chain_ok infs" and "0 \<le> minimum" and "pos < int (length infs)"
  shows "\<exists>m'. scan_previous_labels infs minimum pos m = Some m'"
  using assms(3)
proof (induction "nat (pos + 1)" arbitrary: pos m rule: less_induct)
  case less
  show ?case
  proof (cases "minimum \<le> pos")
    case False
    then show ?thesis by (subst scan_previous_labels.simps) simp
  next
    case True
    with assms(2) less.prems have rng: "0 \<le> pos" "nat pos < length infs" by simp_all
    with assms(1) have lt: "previous_label (infs ! nat pos) < pos"
      by (auto simp: chain_ok_def)
    with rng less.prems have "nat (previous_label (infs ! nat pos) + 1) < nat (pos + 1)"
      "previous_label (infs ! nat pos) < int (length infs)" by simp_all
    from less.hyps [OF this]
    obtain m' where "scan_previous_labels infs minimum (previous_label (infs ! nat pos))
        (if m < jump_from (infs ! nat pos) then jump_from (infs ! nat pos) else m) = Some m'"
      by blast
    with True rng less.prems show ?thesis
      by (subst scan_previous_labels.simps) simp
  qed
qed

lemma scan_jumps_total:
  assumes "chain_ok infs" and "\<forall>j < length infs. jump_from (infs ! j) < int (length infs)"
      and "0 \<le> minimum" and "m < int (length infs)" and "minimum \<le> m"
  shows "\<exists>M. scan_jumps infs minimum m = Some M"
  using assms(3,4,5)
proof (induction "nat (int (length infs) - m)" arbitrary: minimum m rule: less_induct)
  case less
  from scan_previous_labels_total [OF assms(1) less.prems(1) less.prems(2)]
  obtain m' where inner: "scan_previous_labels infs minimum m m = Some m'" by blast
  from scan_previous_labels_sound(1,4) [OF inner assms(1)] assms(2) less.prems(2)
  have m': "m \<le> m'" "m' < int (length infs)" by auto
  show ?case
  proof (cases "m + 1 \<le> m'")
    case False
    with inner show ?thesis by (subst scan_jumps.simps) simp
  next
    case True
    with m' have "nat (int (length infs) - m') < nat (int (length infs) - m)" by simp
    moreover from less.prems(1,3) have "0 \<le> m + 1" by simp
    ultimately obtain M where "scan_jumps infs (m + 1) m' = Some M"
      using less.hyps [of m' "m + 1"] m'(2) True by blast
    with inner True show ?thesis by (subst scan_jumps.simps) simp
  qed
qed

subsection \<open>Flags\<close>

lemma eternal_test: "(f AND VARIABLE_INFO_ETERNAL \<noteq> 0) = bit f 2"
  using and_exp_eq_0_iff_not_bit [of f 2] by (simp add: VARIABLE_INFO_ETERNAL_def)

lemma uninitialized_test: "(f AND VARIABLE_INFO_UNINITIALIZED \<noteq> 0) = bit f 4"
  using and_exp_eq_0_iff_not_bit [of f 4] by (simp add: VARIABLE_INFO_UNINITIALIZED_def)

lemma flag_bits:
  "bit (f OR VARIABLE_INFO_UNUSED) 2 = bit f 2"
  "bit (f OR VARIABLE_INFO_UNUSED) 4 = bit f 4"
  "bit (f AND NOT VARIABLE_INFO_UNUSED) 2 = bit f 2"
  "bit (f AND NOT VARIABLE_INFO_UNUSED) 4 = bit f 4"
  "bit (f OR VARIABLE_INFO_ETERNAL) 2"
  "bit (f OR VARIABLE_INFO_ETERNAL) 4 = bit f 4"
  "bit (f OR (VARIABLE_INFO_ETERNAL OR VARIABLE_INFO_UNINITIALIZED)) 2"
  by (simp_all add: bit_simps VARIABLE_INFO_UNUSED_def VARIABLE_INFO_ETERNAL_def
      VARIABLE_INFO_UNINITIALIZED_def)

lemma address_load_is_variable:
  "operand_is_variable_address_load operand = operand_is_variable operand"
proof -
  have b: "bit (info_flags operand OR OPERAND_FLAG_ADDRESS) 0"
    by (simp add: bit_simps OPERAND_FLAG_ADDRESS_def)
  have "info_flags operand OR OPERAND_FLAG_ADDRESS \<noteq> 0"
  proof
    assume "info_flags operand OR OPERAND_FLAG_ADDRESS = 0"
    with b have "bit (0 :: 16 word) 0" by (simp only:)
    then show False by simp
  qed
  then show ?thesis by (simp add: operand_is_variable_address_load_def)
qed

subsection \<open>One extension of a lifetime\<close>

lemma mark_eternal_ok:
  assumes "mark_eternal var = Some var'" and "variable_ok infs var"
  shows "variable_ok infs var'" and "is_eternal var'"
    and "lifetime_start var' = lifetime_start var" and "lifetime_end var' = lifetime_end var"
  using assms
  by (auto simp: mark_eternal_def variable_ok_def is_eternal_def eternal_test uninitialized_test
      flag_bits)

lemma extend_variable_lifetime_ok:
  assumes ext: "extend_variable_lifetime infs var index pure_assignment = Some var'"
      and chain: "chain_ok infs" and ok: "variable_ok infs var"
      and idx: "0 \<le> index" "index < int (length infs)"
  shows "variable_ok infs var'"
    and "is_eternal var \<Longrightarrow> is_eternal var'"
    and "is_eternal var' \<or> lifetime_start var' \<noteq> - 1"
    and "lifetime_start var \<noteq> - 1 \<Longrightarrow> lifetime_start var' = lifetime_start var"
proof -
  let ?stop = "lifetime_end var \<ge> index \<or> flags var AND VARIABLE_INFO_ETERNAL \<noteq> 0
          \<or> flags var AND VARIABLE_INFO_UNINITIALIZED \<noteq> 0"
  have all: "variable_ok infs var' \<and> (is_eternal var \<longrightarrow> is_eternal var')
     \<and> (is_eternal var' \<or> lifetime_start var' \<noteq> - 1)
     \<and> (lifetime_start var \<noteq> - 1 \<longrightarrow> lifetime_start var' = lifetime_start var)"
  proof (cases ?stop)
    case True
    with ext have same: "var' = var" by (simp add: extend_variable_lifetime_def)
    from True ok idx have "is_eternal var \<or> lifetime_start var \<noteq> - 1"
      by (auto simp: variable_ok_def is_eternal_def)
    with same ok show ?thesis by simp
  next
    case False
    then have ne: "\<not> is_eternal var" and lt: "lifetime_end var < index"
      by (simp_all add: is_eternal_def)
    show ?thesis
    proof (cases "lifetime_start var = - 1")
      case True
      show ?thesis
      proof (cases pure_assignment)
        case True
        with ext False \<open>lifetime_start var = - 1\<close>
        have "var' = var\<lparr>lifetime_start := index, lifetime_end := index + 1,
                          flags := flags var OR VARIABLE_INFO_UNUSED\<rparr>"
          by (simp add: extend_variable_lifetime_def)
        with ok idx ne \<open>lifetime_start var = - 1\<close> show ?thesis
          by (auto simp: variable_ok_def is_eternal_def eternal_test uninitialized_test flag_bits)
      next
        case npure: False
        with ext False True
        have "var' = var\<lparr>flags := flags var OR (VARIABLE_INFO_ETERNAL OR VARIABLE_INFO_UNINITIALIZED)\<rparr>"
          by (simp add: extend_variable_lifetime_def)
        with ok True show ?thesis
          by (auto simp: variable_ok_def is_eternal_def eternal_test uninitialized_test flag_bits)
      qed
    next
      case started: False
      let ?var1 = "if pure_assignment
                     then var\<lparr>flags := flags var OR VARIABLE_INFO_UNUSED\<rparr>
                     else var\<lparr>flags := flags var AND NOT VARIABLE_INFO_UNUSED\<rparr>"
      from ok started have rng: "0 \<le> lifetime_start var" "lifetime_start var < lifetime_end var"
        "lifetime_end var \<le> int (length infs)"
        and old: "\<And>j. lifetime_start var < int j \<Longrightarrow> int j < lifetime_end var \<Longrightarrow>
           jump_from (infs ! j) < lifetime_end var"
        by (auto simp: variable_ok_def)
      from rng have minimum: "(if lifetime_end ?var1 < lifetime_start ?var1
           then lifetime_start ?var1 else lifetime_end ?var1) = lifetime_end var"
        by simp
      from ext False started minimum obtain maximum where
        scan: "scan_jumps infs (lifetime_end var) index = Some maximum"
        and var': "var' = ?var1\<lparr>lifetime_end := maximum\<rparr>"
        by (auto simp: extend_variable_lifetime_def Let_def split: option.splits if_splits)
      from rng lt have pre: "0 \<le> lifetime_end var" "lifetime_end var \<le> index" by simp_all
      note s = scan_jumps_sound [OF scan chain pre]
      have closure: "jump_from (infs ! j) < maximum"
        if "lifetime_start var < int j" "int j < maximum" for j
      proof (cases "int j < lifetime_end var")
        case True
        from old [OF that(1) True] s(1) lt show ?thesis by linarith
      next
        case False
        with s(3) [of j] that show ?thesis by simp
      qed
      from s(1) lt rng have "lifetime_start var < maximum" by linarith
      with var' ok rng s(2) closure ne started show ?thesis
        by (auto simp: variable_ok_def is_eternal_def eternal_test uninitialized_test flag_bits)
    qed
  qed
  from all show "variable_ok infs var'" by simp
  from all show "is_eternal var \<Longrightarrow> is_eternal var'" by simp
  from all show "is_eternal var' \<or> lifetime_start var' \<noteq> - 1" by simp
  from all show "lifetime_start var \<noteq> - 1 \<Longrightarrow> lifetime_start var' = lifetime_start var" by simp
qed

lemma extend_variable_lifetime_total:
  assumes chain: "chain_ok infs"
      and bound: "\<forall>j < length infs. jump_from (infs ! j) < int (length infs)"
      and ok: "variable_ok infs var"
      and idx: "0 \<le> index" "index < int (length infs)"
  shows "\<exists>var'. extend_variable_lifetime infs var index pure_assignment = Some var'"
proof (cases "lifetime_end var \<ge> index \<or> flags var AND VARIABLE_INFO_ETERNAL \<noteq> 0
          \<or> flags var AND VARIABLE_INFO_UNINITIALIZED \<noteq> 0 \<or> lifetime_start var = - 1")
  case True
  then show ?thesis by (auto simp: extend_variable_lifetime_def)
next
  case False
  with ok have rng: "0 \<le> lifetime_start var" "lifetime_start var < lifetime_end var"
    "lifetime_end var < index"
    by (auto simp: variable_ok_def)
  then have "0 \<le> lifetime_end var" "lifetime_end var \<le> index" by simp_all
  from scan_jumps_total [OF chain bound this(1) idx(2) this(2)]
  obtain M where "scan_jumps infs (lifetime_end var) index = Some M" ..
  with False rng show ?thesis
    by (auto simp: extend_variable_lifetime_def Let_def)
qed

subsection \<open>The first loop\<close>

lemma generate_label_data_length:
  "generate_label_data ops k infs = Some infs' \<Longrightarrow> length infs' = length infs"
proof (induction k arbitrary: infs)
  case 0
  then show ?case by simp
next
  case (Suc k)
  show ?case
  proof (cases "opcode_is_jump (ops ! k)")
    case False
    with Suc show ?thesis by simp
  next
    case True
    let ?l = "ref_id (operand_target (ops ! k))"
    from True Suc.prems have rng: "0 \<le> ?l" "?l < int (length infs)"
      by (auto simp: Let_def split: if_splits)
    show ?thesis
    proof (cases "jump_from (infs ! nat ?l) \<ge> 0")
      case True
      with \<open>opcode_is_jump (ops ! k)\<close> rng Suc show ?thesis by (simp add: Let_def)
    next
      case False
      with \<open>opcode_is_jump (ops ! k)\<close> rng Suc.prems
      have "generate_label_data ops k (infs[nat ?l := (infs ! nat ?l)\<lparr>jump_from := int k\<rparr>]) = Some infs'"
        by (simp add: Let_def)
      from Suc.IH [OF this] show ?thesis by simp
    qed
  qed
qed

lemma generate_label_data_bound:
  assumes "generate_label_data ops k infs = Some infs'"
      and "\<forall>j < length infs. jump_from (infs ! j) < N" and "int k \<le> N"
  shows "\<forall>j < length infs'. jump_from (infs' ! j) < N"
  using assms
proof (induction k arbitrary: infs)
  case 0
  then show ?case by simp
next
  case (Suc k)
  show ?case
  proof (cases "opcode_is_jump (ops ! k)")
    case False
    with Suc.prems have "generate_label_data ops k infs = Some infs'" by simp
    from Suc.IH [OF this Suc.prems(2)] Suc.prems(3) show ?thesis by simp
  next
    case True
    let ?l = "ref_id (operand_target (ops ! k))"
    from True Suc.prems have rng: "0 \<le> ?l" "?l < int (length infs)"
      by (auto simp: Let_def split: if_splits)
    show ?thesis
    proof (cases "jump_from (infs ! nat ?l) \<ge> 0")
      case True
      with \<open>opcode_is_jump (ops ! k)\<close> rng Suc.prems have "generate_label_data ops k infs = Some infs'"
        by (simp add: Let_def)
      from Suc.IH [OF this Suc.prems(2)] Suc.prems(3) show ?thesis by simp
    next
      case False
      let ?infs1 = "infs[nat ?l := (infs ! nat ?l)\<lparr>jump_from := int k\<rparr>]"
      from False \<open>opcode_is_jump (ops ! k)\<close> rng Suc.prems
      have rec: "generate_label_data ops k ?infs1 = Some infs'"
        by (simp add: Let_def)
      from Suc.prems(3) have "int k < N" by simp
      moreover from rng have "nat ?l < length infs" by simp
      ultimately have "\<forall>j < length ?infs1. jump_from (?infs1 ! j) < N"
        using Suc.prems(2) by (simp add: nth_list_update)
      from Suc.IH [OF rec this] Suc.prems(3) show ?thesis by simp
    qed
  qed
qed

lemma generate_label_data_total:
  assumes "\<forall>i < k. opcode_is_jump (ops ! i) \<longrightarrow>
             0 \<le> ref_id (operand_target (ops ! i))
           \<and> ref_id (operand_target (ops ! i)) < int (length infs)"
  shows "\<exists>infs'. generate_label_data ops k infs = Some infs'"
  using assms
proof (induction k arbitrary: infs)
  case 0
  show ?case by simp
next
  case (Suc k)
  have a: "\<exists>infs'. generate_label_data ops k infs = Some infs'"
    using Suc.IH [of infs] Suc.prems by simp
  have b: "\<exists>infs'. generate_label_data ops k (infs[l := x]) = Some infs'" for l x
    using Suc.IH [of "infs[l := x]"] Suc.prems by simp
  from Suc.prems have "opcode_is_jump (ops ! k) \<longrightarrow>
       0 \<le> ref_id (operand_target (ops ! k)) \<and> ref_id (operand_target (ops ! k)) < int (length infs)"
    by simp
  with a b show ?case by (simp add: Let_def)
qed

subsection \<open>The second loop\<close>

lemma jump_from_update_previous_label:
  "jump_from ((infs[i := (infs ! i)\<lparr>previous_label := p\<rparr>]) ! k) = jump_from (infs ! k)"
  by (cases "i < length infs"; cases "k = i") (simp_all add: list_update_beyond)

lemma build_previous_label_length:
  "length (build_previous_label infs i prev) = length infs"
  by (induction infs i prev rule: build_previous_label.induct)
     (subst build_previous_label.simps, simp)

lemma build_previous_label_jump_from:
  "jump_from (build_previous_label infs i prev ! k) = jump_from (infs ! k)"
proof (induction infs i prev rule: build_previous_label.induct)
  case (1 infs i prev)
  show ?case
  proof (cases "i < length infs")
    case True
    with 1 [OF True] show ?thesis
      by (subst build_previous_label.simps) (simp add: jump_from_update_previous_label)
  next
    case False
    then show ?thesis by (subst build_previous_label.simps) simp
  qed
qed

lemma build_previous_label_chain:
  "chain_upto i prev infs \<Longrightarrow> chain_ok (build_previous_label infs i prev)"
proof (induction infs i prev rule: build_previous_label.induct)
  case (1 infs i prev)
  show ?case
  proof (cases "i < length infs")
    case False
    have "chain_ok infs"
      unfolding chain_ok_def
    proof (intro allI impI)
      fix i' assume "i' < length infs"
      with False have "i' < i" by simp
      with "1.prems" \<open>i' < length infs\<close>
      show "previous_label (infs ! i') < int i' \<and>
        (\<forall>k < i'. previous_label (infs ! i') < int k \<longrightarrow> jump_from (infs ! k) < 0)"
        by (simp add: chain_upto_def)
    qed
    with False show ?thesis by (subst build_previous_label.simps) simp
  next
    case True
    let ?infs1 = "infs[i := (infs ! i)\<lparr>previous_label := prev\<rparr>]"
    let ?prev1 = "if jump_from (infs ! i) \<ge> 0 then int i else prev"
    have jf: "\<And>k. jump_from (?infs1 ! k) = jump_from (infs ! k)"
      by (rule jump_from_update_previous_label)
    have pl: "\<And>k. k \<noteq> i \<Longrightarrow> previous_label (?infs1 ! k) = previous_label (infs ! k)"
      by simp
    from True have pi: "previous_label (?infs1 ! i) = prev" by simp
    from "1.prems" have h1: "\<And>i' k. i' < i \<Longrightarrow> i' < length infs \<Longrightarrow>
          previous_label (infs ! i') < int i' \<and>
          (k < i' \<longrightarrow> previous_label (infs ! i') < int k \<longrightarrow> jump_from (infs ! k) < 0)"
      and h2: "prev < int i"
      and h3: "\<And>k. k < i \<Longrightarrow> prev < int k \<Longrightarrow> jump_from (infs ! k) < 0"
      using True by (auto simp: chain_upto_def)
    have "chain_upto (Suc i) ?prev1 ?infs1"
      unfolding chain_upto_def
    proof (intro conjI allI impI)
      fix i' assume i': "i' < Suc i" "i' < length ?infs1"
      show "previous_label (?infs1 ! i') < int i'"
      proof (cases "i' = i")
        case True
        with pi h2 show ?thesis by simp
      next
        case False
        with i' h1 [of i'] pl [of i'] show ?thesis by simp
      qed
    next
      fix i' k assume i': "i' < Suc i" "i' < length ?infs1" and k: "k < i'"
        and p: "previous_label (?infs1 ! i') < int k"
      show "jump_from (?infs1 ! k) < 0"
      proof (cases "i' = i")
        case True
        with p pi k h3 [of k] jf [of k] show ?thesis by simp
      next
        case False
        with i' k p h1 [of i' k] pl [of i'] jf [of k] show ?thesis by simp
      qed
    next
      from h2 show "?prev1 < int (Suc i)" by simp
    next
      fix k assume k: "k < Suc i" "k < length ?infs1" and p: "?prev1 < int k"
      show "jump_from (?infs1 ! k) < 0"
      proof (cases "k = i")
        case True
        with p jf [of k] show ?thesis by (simp split: if_splits)
      next
        case False
        with k have "k < i" by simp
        moreover from p h2 have "prev < int k" by (simp split: if_splits)
        ultimately show ?thesis using h3 [of k] jf [of k] by simp
      qed
    qed
    from "1.IH" [OF True this] True show ?thesis
      by (subst build_previous_label.simps) simp
  qed
qed

lemma build_previous_label_chain_ok: "chain_ok (build_previous_label infs 0 (- 1))"
  by (rule build_previous_label_chain) (simp add: chain_upto_def)

subsection \<open>The third loop\<close>

lemma step_mono_refl: "step_mono a a"
  by (simp add: step_mono_def)

lemma step_mono_trans: "step_mono a b \<Longrightarrow> step_mono b c \<Longrightarrow> step_mono a c"
  by (auto simp: step_mono_def)

lemma touched_mono: "touched a v \<Longrightarrow> step_mono a b \<Longrightarrow> touched b v"
  by (auto simp: touched_def step_mono_def)

lemma update_variable_effect:
  assumes upd: "update_variable a r f = Some a'" and ok: "analysis_ok fn a"
      and f: "\<And>x x'. f x = Some x' \<Longrightarrow> variable_ok (infos a) x \<Longrightarrow>
                variable_ok (infos a) x' \<and> (is_eternal x \<longrightarrow> is_eternal x')
              \<and> (lifetime_start x \<noteq> - 1 \<longrightarrow> lifetime_start x' \<noteq> - 1) \<and> Q x'"
  shows "analysis_ok fn a'" and "step_mono a a'"
    and "0 \<le> r \<and> nat r < length (variables a') \<and> Q (variables a' ! nat r)"
    and "\<And>v. int v \<noteq> r \<Longrightarrow> variables a' ! v = variables a ! v"
proof -
  from upd obtain x' where rng: "0 \<le> r" "nat r < length (variables a)"
    and fx: "f (variables a ! nat r) = Some x'"
    and a': "a' = a\<lparr>variables := (variables a)[nat r := x']\<rparr>"
    by (auto simp: update_variable_def split: if_splits option.splits)
  from ok rng have "variable_ok (infos a) (variables a ! nat r)"
    by (simp add: analysis_ok_def)
  from f [OF fx this] have x': "variable_ok (infos a) x'"
    "is_eternal (variables a ! nat r) \<longrightarrow> is_eternal x'"
    "lifetime_start (variables a ! nat r) \<noteq> - 1 \<longrightarrow> lifetime_start x' \<noteq> - 1" "Q x'"
    by simp_all
  from ok x'(1) rng show "analysis_ok fn a'"
    by (auto simp: analysis_ok_def a' nth_list_update)
  from x'(2,3) rng show "step_mono a a'"
    by (auto simp: step_mono_def a' nth_list_update)
  from x'(4) rng show "0 \<le> r \<and> nat r < length (variables a') \<and> Q (variables a' ! nat r)"
    by (simp add: a')
  show "variables a' ! v = variables a ! v" if "int v \<noteq> r" for v
    using that rng by (auto simp: a' nth_list_update)
qed

lemma update_variable_extend:
  assumes upd: "update_variable a r (\<lambda>var. extend_variable_lifetime (infos a) var (int i) p) = Some a'"
      and ok: "analysis_ok fn a" and i: "i < opcodes_size fn"
  shows "analysis_ok fn a'" and "step_mono a a'" and "touched a' r"
    and "\<And>v. int v \<noteq> r \<Longrightarrow> variables a' ! v = variables a ! v"
proof -
  have f: "variable_ok (infos a) x' \<and> (is_eternal x \<longrightarrow> is_eternal x')
              \<and> (lifetime_start x \<noteq> - 1 \<longrightarrow> lifetime_start x' \<noteq> - 1)
              \<and> (is_eternal x' \<or> lifetime_start x' \<noteq> - 1)"
    if "extend_variable_lifetime (infos a) x (int i) p = Some x'" "variable_ok (infos a) x"
    for x x'
  proof -
    from ok i have "chain_ok (infos a)" "0 \<le> int i" "int i < int (length (infos a))"
      by (simp_all add: analysis_ok_def)
    from extend_variable_lifetime_ok [OF that(1) this(1) that(2) this(2,3)]
    show ?thesis by auto
  qed
  note e = update_variable_effect [OF upd ok f]
  from e(1) show "analysis_ok fn a'" .
  from e(2) show "step_mono a a'" .
  from e(3) show "touched a' r" by (simp add: touched_def)
  from e(4) show "\<And>v. int v \<noteq> r \<Longrightarrow> variables a' ! v = variables a ! v" .
qed

lemma update_variable_mark:
  assumes upd: "update_variable a r mark_eternal = Some a'" and ok: "analysis_ok fn a"
  shows "analysis_ok fn a'" and "step_mono a a'"
    and "0 \<le> r \<and> nat r < length (variables a') \<and> is_eternal (variables a' ! nat r)"
    and "\<And>v. int v \<noteq> r \<Longrightarrow> variables a' ! v = variables a ! v"
proof -
  have f: "variable_ok (infos a) x' \<and> (is_eternal x \<longrightarrow> is_eternal x')
              \<and> (lifetime_start x \<noteq> - 1 \<longrightarrow> lifetime_start x' \<noteq> - 1) \<and> is_eternal x'"
    if "mark_eternal x = Some x'" "variable_ok (infos a) x" for x x'
    using mark_eternal_ok [OF that] by simp
  note e = update_variable_effect [OF upd ok f]
  from e(1) show "analysis_ok fn a'" .
  from e(2) show "step_mono a a'" .
  from e(3) show "0 \<le> r \<and> nat r < length (variables a') \<and> is_eternal (variables a' ! nat r)" .
  from e(4) show "\<And>v. int v \<noteq> r \<Longrightarrow> variables a' ! v = variables a ! v" .
qed

lemma lifetime_target_effect:
  assumes st: "lifetime_target op (int i) a = Some a'"
      and ok: "analysis_ok fn a" and i: "i < opcodes_size fn"
  shows "analysis_ok fn a'" and "step_mono a a'"
    and "\<And>v. target_visits op v \<Longrightarrow> touched a' v"
    and "\<And>v. \<not> target_visits op (int v) \<Longrightarrow> variables a' ! v = variables a ! v"
proof -
  let ?c = "operand_is_variable (operand_target op)
          \<and> (opcode_is_pure_assignment op \<or> opcode_modifies_target_operand op)"
  have all: "analysis_ok fn a' \<and> step_mono a a'
     \<and> (\<forall>v. target_visits op v \<longrightarrow> touched a' v)
     \<and> (\<forall>v. \<not> target_visits op (int v) \<longrightarrow> variables a' ! v = variables a ! v)"
  proof (cases ?c)
    case False
    with st have "a' = a" by (auto simp: lifetime_target_def Let_def)
    with False ok show ?thesis by (auto simp: step_mono_refl target_visits_def)
  next
    case True
    with st have "update_variable a (ref_id (operand_target op))
        (\<lambda>var. extend_variable_lifetime (infos a) var (int i) (opcode_is_pure_assignment op)) = Some a'"
      by (simp add: lifetime_target_def Let_def)
    note e = update_variable_extend [OF this ok i]
    from e True show ?thesis by (auto simp: target_visits_def)
  qed
  from all show "analysis_ok fn a'" and "step_mono a a'"
    and "\<And>v. target_visits op v \<Longrightarrow> touched a' v"
    and "\<And>v. \<not> target_visits op (int v) \<Longrightarrow> variables a' ! v = variables a ! v"
    by blast+
qed

lemma lifetime_primary_1_effect:
  assumes st: "lifetime_primary_1 op (int i) a = Some a'"
      and ok: "analysis_ok fn a" and i: "i < opcodes_size fn"
  shows "analysis_ok fn a'" and "step_mono a a'"
    and "\<And>v. primary_1_visits op v \<Longrightarrow> touched a' v"
    and "\<And>v. \<not> primary_1_visits op (int v) \<Longrightarrow> variables a' ! v = variables a ! v"
    and "operand_is_variable (operand_primary_1 op) \<Longrightarrow>
           0 \<le> ref_id (operand_primary_1 op)
         \<and> nat (ref_id (operand_primary_1 op)) < length (variables a')
         \<and> is_eternal (variables a' ! nat (ref_id (operand_primary_1 op)))"
proof -
  let ?r = "ref_id (operand_primary_1 op)"
  have all: "analysis_ok fn a' \<and> step_mono a a'
     \<and> (\<forall>v. primary_1_visits op v \<longrightarrow> touched a' v)
     \<and> (\<forall>v. \<not> primary_1_visits op (int v) \<longrightarrow> variables a' ! v = variables a ! v)
     \<and> (operand_is_variable (operand_primary_1 op) \<longrightarrow>
           0 \<le> ?r \<and> nat ?r < length (variables a') \<and> is_eternal (variables a' ! nat ?r))"
  proof (cases "operand_is_variable (operand_primary_1 op)")
    case False
    with st have "a' = a"
      by (auto simp: lifetime_primary_1_def address_load_is_variable)
    with False ok show ?thesis
      by (auto simp: step_mono_refl primary_1_visits_def address_load_is_variable)
  next
    case True
    with st have "update_variable a ?r mark_eternal = Some a'"
      by (simp add: lifetime_primary_1_def address_load_is_variable)
    note e = update_variable_mark [OF this ok]
    from e True show ?thesis
      by (auto simp: primary_1_visits_def touched_def address_load_is_variable)
  qed
  from all show "analysis_ok fn a'" and "step_mono a a'"
    and "\<And>v. primary_1_visits op v \<Longrightarrow> touched a' v"
    and "\<And>v. \<not> primary_1_visits op (int v) \<Longrightarrow> variables a' ! v = variables a ! v"
    and "operand_is_variable (operand_primary_1 op) \<Longrightarrow>
           0 \<le> ?r \<and> nat ?r < length (variables a') \<and> is_eternal (variables a' ! nat ?r)"
    by blast+
qed

lemma lifetime_primary_2_effect:
  assumes st: "lifetime_primary_2 op (int i) a = Some a'"
      and ok: "analysis_ok fn a" and i: "i < opcodes_size fn"
  shows "analysis_ok fn a'" and "step_mono a a'"
    and "\<And>v. primary_2_visits op v \<Longrightarrow> touched a' v"
    and "\<And>v. \<not> primary_2_visits op (int v) \<Longrightarrow> variables a' ! v = variables a ! v"
    and "operand_is_variable (operand_primary_2 op) \<Longrightarrow>
           0 \<le> ref_id (operand_primary_2 op)
         \<and> nat (ref_id (operand_primary_2 op)) < length (variables a')
         \<and> is_eternal (variables a' ! nat (ref_id (operand_primary_2 op)))"
proof -
  let ?r = "ref_id (operand_primary_2 op)"
  have all: "analysis_ok fn a' \<and> step_mono a a'
     \<and> (\<forall>v. primary_2_visits op v \<longrightarrow> touched a' v)
     \<and> (\<forall>v. \<not> primary_2_visits op (int v) \<longrightarrow> variables a' ! v = variables a ! v)
     \<and> (operand_is_variable (operand_primary_2 op) \<longrightarrow>
           0 \<le> ?r \<and> nat ?r < length (variables a') \<and> is_eternal (variables a' ! nat ?r))"
  proof (cases "operand_is_variable (operand_primary_2 op)")
    case False
    with st have "a' = a"
      by (auto simp: lifetime_primary_2_def address_load_is_variable)
    with False ok show ?thesis
      by (auto simp: step_mono_refl primary_2_visits_def address_load_is_variable)
  next
    case True
    with st have "update_variable a ?r mark_eternal = Some a'"
      by (simp add: lifetime_primary_2_def address_load_is_variable)
    note e = update_variable_mark [OF this ok]
    from e True show ?thesis
      by (auto simp: primary_2_visits_def touched_def address_load_is_variable)
  qed
  from all show "analysis_ok fn a'" and "step_mono a a'"
    and "\<And>v. primary_2_visits op v \<Longrightarrow> touched a' v"
    and "\<And>v. \<not> primary_2_visits op (int v) \<Longrightarrow> variables a' ! v = variables a ! v"
    and "operand_is_variable (operand_primary_2 op) \<Longrightarrow>
           0 \<le> ?r \<and> nat ?r < length (variables a') \<and> is_eternal (variables a' ! nat ?r)"
    by blast+
qed

lemma lifetime_step_effect:
  assumes st: "lifetime_step op (int i) a = Some a'"
      and ok: "analysis_ok fn a" and i: "i < opcodes_size fn"
  shows "analysis_ok fn a'" and "step_mono a a'"
    and "\<And>v. visits op v \<Longrightarrow> touched a' v"
    and "\<And>v. \<not> visits op (int v) \<Longrightarrow> variables a' ! v = variables a ! v"
    and "operand_is_variable (operand_primary_1 op) \<Longrightarrow>
           0 \<le> ref_id (operand_primary_1 op)
         \<and> nat (ref_id (operand_primary_1 op)) < length (variables a')
         \<and> is_eternal (variables a' ! nat (ref_id (operand_primary_1 op)))"
    and "operand_is_variable (operand_primary_2 op) \<Longrightarrow>
           0 \<le> ref_id (operand_primary_2 op)
         \<and> nat (ref_id (operand_primary_2 op)) < length (variables a')
         \<and> is_eternal (variables a' ! nat (ref_id (operand_primary_2 op)))"
proof -
  from st obtain a1 a2 where
    s1: "lifetime_target op (int i) a = Some a1"
    and s2: "lifetime_primary_1 op (int i) a1 = Some a2"
    and s3: "lifetime_primary_2 op (int i) a2 = Some a'"
    by (auto simp: lifetime_step_def bind_eq_Some_conv)
  note e1 = lifetime_target_effect [OF s1 ok i]
  note e2 = lifetime_primary_1_effect [OF s2 e1(1) i]
  note e3 = lifetime_primary_2_effect [OF s3 e2(1) i]
  from e3(1) show "analysis_ok fn a'" .
  from e1(2) e2(2) e3(2) show mono: "step_mono a a'" by (blast intro: step_mono_trans)
  show "touched a' v" if "visits op v" for v
    using that e1(3) [of v] e2(3) [of v] e3(3) [of v] e2(2) e3(2)
    by (auto simp: visits_def intro: touched_mono step_mono_trans)
  show "variables a' ! v = variables a ! v" if "\<not> visits op (int v)" for v
    using that e1(4) [of v] e2(4) [of v] e3(4) [of v] by (simp add: visits_def)
  show "0 \<le> ref_id (operand_primary_1 op)
         \<and> nat (ref_id (operand_primary_1 op)) < length (variables a')
         \<and> is_eternal (variables a' ! nat (ref_id (operand_primary_1 op)))"
    if "operand_is_variable (operand_primary_1 op)"
    using e2(5) [OF that] e3(2) by (auto simp: step_mono_def)
  show "0 \<le> ref_id (operand_primary_2 op)
         \<and> nat (ref_id (operand_primary_2 op)) < length (variables a')
         \<and> is_eternal (variables a' ! nat (ref_id (operand_primary_2 op)))"
    if "operand_is_variable (operand_primary_2 op)"
    using e3(5) [OF that] .
qed

lemma lifetime_inv_primary_1:
  assumes "lifetime_inv fn i a" and "j < i"
      and "operand_is_variable (operand_primary_1 (opcodes fn ! j))"
  shows "0 \<le> ref_id (operand_primary_1 (opcodes fn ! j))"
    and "ref_id (operand_primary_1 (opcodes fn ! j)) < int (variables_size fn)"
    and "is_eternal (variables a ! nat (ref_id (operand_primary_1 (opcodes fn ! j))))"
proof -
  from assms have "0 \<le> ref_id (operand_primary_1 (opcodes fn ! j))
      \<and> nat (ref_id (operand_primary_1 (opcodes fn ! j))) < variables_size fn
      \<and> is_eternal (variables a ! nat (ref_id (operand_primary_1 (opcodes fn ! j))))"
    by (simp add: lifetime_inv_def)
  then have c: "0 \<le> ref_id (operand_primary_1 (opcodes fn ! j))"
    "nat (ref_id (operand_primary_1 (opcodes fn ! j))) < variables_size fn"
    "is_eternal (variables a ! nat (ref_id (operand_primary_1 (opcodes fn ! j))))"
    by blast+
  from c(1) show "0 \<le> ref_id (operand_primary_1 (opcodes fn ! j))" .
  from c(1,2) show "ref_id (operand_primary_1 (opcodes fn ! j)) < int (variables_size fn)"
    by linarith
  from c(3) show "is_eternal (variables a ! nat (ref_id (operand_primary_1 (opcodes fn ! j))))" .
qed

lemma lifetime_inv_primary_2:
  assumes "lifetime_inv fn i a" and "j < i"
      and "operand_is_variable (operand_primary_2 (opcodes fn ! j))"
  shows "0 \<le> ref_id (operand_primary_2 (opcodes fn ! j))"
    and "ref_id (operand_primary_2 (opcodes fn ! j)) < int (variables_size fn)"
    and "is_eternal (variables a ! nat (ref_id (operand_primary_2 (opcodes fn ! j))))"
proof -
  from assms have "0 \<le> ref_id (operand_primary_2 (opcodes fn ! j))
      \<and> nat (ref_id (operand_primary_2 (opcodes fn ! j))) < variables_size fn
      \<and> is_eternal (variables a ! nat (ref_id (operand_primary_2 (opcodes fn ! j))))"
    by (simp add: lifetime_inv_def)
  then have c: "0 \<le> ref_id (operand_primary_2 (opcodes fn ! j))"
    "nat (ref_id (operand_primary_2 (opcodes fn ! j))) < variables_size fn"
    "is_eternal (variables a ! nat (ref_id (operand_primary_2 (opcodes fn ! j))))"
    by blast+
  from c(1) show "0 \<le> ref_id (operand_primary_2 (opcodes fn ! j))" .
  from c(1,2) show "ref_id (operand_primary_2 (opcodes fn ! j)) < int (variables_size fn)"
    by linarith
  from c(3) show "is_eternal (variables a ! nat (ref_id (operand_primary_2 (opcodes fn ! j))))" .
qed

lemma lifetime_inv_start:
  assumes "lifetime_inv fn i a" and "v < variables_size fn" and "\<not> is_eternal (variables a ! v)"
  shows "(lifetime_start (variables a ! v) = - 1) = (\<forall>j < i. \<not> visits (opcodes fn ! j) (int v))"
  using assms by (simp add: lifetime_inv_def)

lemma lifetime_inv_step:
  assumes st: "lifetime_step (opcodes fn ! i) (int i) a = Some a'"
      and inv: "lifetime_inv fn i a" and i: "i < opcodes_size fn"
  shows "lifetime_inv fn (Suc i) a'"
proof -
  let ?op = "opcodes fn ! i"
  from inv have ok: "analysis_ok fn a" by (simp add: lifetime_inv_def)
  note e = lifetime_step_effect [OF st ok i]
  from e(1) have len: "length (variables a') = variables_size fn"
    by (simp add: analysis_ok_def)
  from ok have len0: "length (variables a) = variables_size fn"
    by (simp add: analysis_ok_def)
  have eternal_kept: "is_eternal (variables a' ! v)"
    if "v < variables_size fn" "is_eternal (variables a ! v)" for v
    using that e(2) len0 by (auto simp: step_mono_def)
  have started_kept: "lifetime_start (variables a' ! v) \<noteq> - 1"
    if "v < variables_size fn" "lifetime_start (variables a ! v) \<noteq> - 1" for v
    using that e(2) len0 by (auto simp: step_mono_def)
  have prim: "(operand_is_variable (operand_primary_1 (opcodes fn ! j)) \<longrightarrow>
             0 \<le> ref_id (operand_primary_1 (opcodes fn ! j))
           \<and> nat (ref_id (operand_primary_1 (opcodes fn ! j))) < variables_size fn
           \<and> is_eternal (variables a' ! nat (ref_id (operand_primary_1 (opcodes fn ! j)))))
        \<and> (operand_is_variable (operand_primary_2 (opcodes fn ! j)) \<longrightarrow>
             0 \<le> ref_id (operand_primary_2 (opcodes fn ! j))
           \<and> nat (ref_id (operand_primary_2 (opcodes fn ! j))) < variables_size fn
           \<and> is_eternal (variables a' ! nat (ref_id (operand_primary_2 (opcodes fn ! j)))))"
    if "j < Suc i" for j
  proof (cases "j = i")
    case True
    with e(5,6) len show ?thesis by auto
  next
    case False
    with that have "j < i" by simp
    with inv eternal_kept show ?thesis
      by (auto simp: lifetime_inv_def)
  qed
  have start: "(lifetime_start (variables a' ! v) = - 1) =
      (\<forall>j < Suc i. \<not> visits (opcodes fn ! j) (int v))"
    if v: "v < variables_size fn" and ne: "\<not> is_eternal (variables a' ! v)" for v
  proof -
    from ne eternal_kept [OF v] have ne0: "\<not> is_eternal (variables a ! v)" by blast
    with inv v have old: "(lifetime_start (variables a ! v) = - 1) =
      (\<forall>j < i. \<not> visits (opcodes fn ! j) (int v))"
      by (simp add: lifetime_inv_def)
    show ?thesis
    proof (cases "visits ?op (int v)")
      case True
      from e(3) [OF True] ne have "lifetime_start (variables a' ! v) \<noteq> - 1"
        by (simp add: touched_def)
      with True show ?thesis by auto
    next
      case False
      from e(4) [OF False] have "variables a' ! v = variables a ! v" .
      with old False show ?thesis by (auto simp: less_Suc_eq)
    qed
  qed
  from e(1) prim start show ?thesis
    unfolding lifetime_inv_def by blast
qed

lemma calculate_lifetimes_inv:
  assumes "calculate_lifetimes fn i a = Some a'" and "lifetime_inv fn i a"
      and "i \<le> opcodes_size fn"
  shows "lifetime_inv fn (opcodes_size fn) a' \<and> infos a' = infos a"
  using assms
proof (induction fn i a rule: calculate_lifetimes.induct)
  case (1 fn i a)
  note unfold = calculate_lifetimes.simps [of fn i a]
  show ?case
  proof (cases "i < opcodes_size fn")
    case False
    with "1.prems" unfold have "a' = a" "i = opcodes_size fn" by simp_all
    with "1.prems"(2) show ?thesis by simp
  next
    case True
    with "1.prems"(1) unfold obtain a1 where
      st: "lifetime_step (opcodes fn ! i) (int i) a = Some a1"
      and rest: "calculate_lifetimes fn (Suc i) a1 = Some a'"
      by (auto split: option.splits)
    from lifetime_inv_step [OF st "1.prems"(2) True] have inv1: "lifetime_inv fn (Suc i) a1" .
    from "1.prems"(2) have "analysis_ok fn a" by (simp add: lifetime_inv_def)
    from lifetime_step_effect(2) [OF st this True] have "infos a1 = infos a"
      by (simp add: step_mono_def)
    with "1.IH" [OF True st rest inv1] True show ?thesis by simp
  qed
qed

subsection \<open>The analysis returns\<close>

lemma update_variable_total:
  assumes "0 \<le> r" and "r < int (length (variables a))"
      and "\<exists>x'. f (variables a ! nat r) = Some x'"
  shows "\<exists>a'. update_variable a r f = Some a'"
  using assms by (auto simp: update_variable_def)

lemma update_variable_extend_total:
  assumes ok: "analysis_ok fn a" and jr: "jumps_in_range (infos a)" and i: "i < opcodes_size fn"
      and r: "0 \<le> r" "r < int (variables_size fn)"
  shows "\<exists>a'. update_variable a r (\<lambda>var. extend_variable_lifetime (infos a) var (int i) p) = Some a'"
proof -
  from ok r have v: "variable_ok (infos a) (variables a ! nat r)"
    and len: "r < int (length (variables a))"
    by (simp_all add: analysis_ok_def)
  from ok i have "chain_ok (infos a)" "0 \<le> int i" "int i < int (length (infos a))"
    by (simp_all add: analysis_ok_def)
  from extend_variable_lifetime_total [OF this(1) _ v this(2,3)] jr
  have "\<exists>x'. extend_variable_lifetime (infos a) (variables a ! nat r) (int i) p = Some x'"
    by (simp add: jumps_in_range_def)
  from update_variable_total [OF r(1) len, of "\<lambda>var. extend_variable_lifetime (infos a) var (int i) p"]
    this show ?thesis by simp
qed

lemma update_variable_mark_total:
  assumes ok: "analysis_ok fn a" and r: "0 \<le> r" "r < int (variables_size fn)"
  shows "\<exists>a'. update_variable a r mark_eternal = Some a'"
proof -
  from ok r have "r < int (length (variables a))" by (simp add: analysis_ok_def)
  from update_variable_total [OF r(1) this, of mark_eternal] show ?thesis
    by (simp add: mark_eternal_def)
qed

lemma lifetime_step_total:
  assumes ok: "analysis_ok fn a" and jr: "jumps_in_range (infos a)" and i: "i < opcodes_size fn"
      and wf: "\<forall>x \<in> {operand_target op, operand_primary_1 op, operand_primary_2 op}.
           operand_is_variable x \<longrightarrow> 0 \<le> ref_id x \<and> ref_id x < int (variables_size fn)"
  shows "\<exists>a'. lifetime_step op (int i) a = Some a'"
proof -
  have "\<exists>a1. lifetime_target op (int i) a = Some a1"
    using update_variable_extend_total [OF ok jr i, of "ref_id (operand_target op)"] wf
    by (auto simp: lifetime_target_def Let_def)
  then obtain a1 where s1: "lifetime_target op (int i) a = Some a1" ..
  note e1 = lifetime_target_effect [OF s1 ok i]
  from e1(2) jr have jr1: "jumps_in_range (infos a1)" by (simp add: step_mono_def)
  have "\<exists>a2. lifetime_primary_1 op (int i) a1 = Some a2"
    using update_variable_mark_total [OF e1(1), of "ref_id (operand_primary_1 op)"] wf
    by (auto simp: lifetime_primary_1_def address_load_is_variable)
  then obtain a2 where s2: "lifetime_primary_1 op (int i) a1 = Some a2" ..
  note e2 = lifetime_primary_1_effect [OF s2 e1(1) i]
  have "\<exists>a3. lifetime_primary_2 op (int i) a2 = Some a3"
    using update_variable_mark_total [OF e2(1), of "ref_id (operand_primary_2 op)"] wf
    by (auto simp: lifetime_primary_2_def address_load_is_variable)
  then obtain a3 where s3: "lifetime_primary_2 op (int i) a2 = Some a3" ..
  from s1 s2 s3 show ?thesis by (simp add: lifetime_step_def)
qed

lemma calculate_lifetimes_total:
  assumes "analysis_ok fn a" and "jumps_in_range (infos a)" and "well_formed fn"
  shows "\<exists>a'. calculate_lifetimes fn i a = Some a'"
  using assms
proof (induction fn i a rule: calculate_lifetimes.induct)
  case (1 fn i a)
  note unfold = calculate_lifetimes.simps [of fn i a]
  show ?case
  proof (cases "i < opcodes_size fn")
    case False
    with unfold show ?thesis by simp
  next
    case True
    then have "opcodes fn ! i \<in> set (opcodes fn)" by (simp add: opcodes_size_def)
    with "1.prems"(3) have wf: "\<forall>x \<in> {operand_target (opcodes fn ! i),
        operand_primary_1 (opcodes fn ! i), operand_primary_2 (opcodes fn ! i)}.
           operand_is_variable x \<longrightarrow> 0 \<le> ref_id x \<and> ref_id x < int (variables_size fn)"
    proof -
      from "1.prems"(3) \<open>opcodes fn ! i \<in> set (opcodes fn)\<close>
      show ?thesis by (simp only: well_formed_def) (drule (1) bspec, simp)
    qed
    from lifetime_step_total [OF "1.prems"(1,2) True wf]
    obtain a1 where st: "lifetime_step (opcodes fn ! i) (int i) a = Some a1" ..
    note e = lifetime_step_effect [OF st "1.prems"(1) True]
    from e(2) "1.prems"(2) have "jumps_in_range (infos a1)" by (simp add: step_mono_def)
    from "1.IH" [OF True st e(1) this "1.prems"(3)] True st unfold show ?thesis by simp
  qed
qed

subsection \<open>The whole analysis\<close>

lemma initial_variable_ok:
  "variable_ok infs \<lparr>lifetime_start = - 1, lifetime_end = - 1, flags = 0\<rparr>"
  by (simp add: variable_ok_def)

lemma initial_not_eternal:
  "\<not> is_eternal \<lparr>lifetime_start = - 1, lifetime_end = - 1, flags = 0\<rparr>"
  by (simp add: is_eternal_def)

lemma analyse_function_inv:
  assumes "analyse_function fn uninit = Some a"
  shows "lifetime_inv fn (opcodes_size fn) a"
proof -
  let ?infos0 = "map uninit [0..<opcodes_size fn]"
  let ?vars0 = "replicate (variables_size fn) \<lparr>lifetime_start = - 1, lifetime_end = - 1, flags = 0\<rparr>"
  from assms obtain infos1 where
    p1: "generate_label_data (opcodes fn) (opcodes_size fn) ?infos0 = Some infos1"
    and p3: "calculate_lifetimes fn 0
               \<lparr>infos = build_previous_label infos1 0 (- 1), variables = ?vars0\<rparr> = Some a"
    by (auto simp: analyse_function_def Let_def split: option.splits)
  let ?a0 = "\<lparr>infos = build_previous_label infos1 0 (- 1), variables = ?vars0\<rparr>"
  from generate_label_data_length [OF p1] have "length infos1 = opcodes_size fn" by simp
  then have ok: "analysis_ok fn ?a0"
    by (simp add: analysis_ok_def build_previous_label_chain_ok build_previous_label_length
        initial_variable_ok)
  then have "lifetime_inv fn 0 ?a0"
    by (simp add: lifetime_inv_def initial_not_eternal)
  from calculate_lifetimes_inv [OF p3 this] show ?thesis by simp
qed

lemma analyse_function_total:
  assumes wf: "well_formed fn" and mem: "memory_in_range fn uninit"
  shows "\<exists>a. analyse_function fn uninit = Some a"
proof -
  let ?infos0 = "map uninit [0..<opcodes_size fn]"
  let ?vars0 = "replicate (variables_size fn) \<lparr>lifetime_start = - 1, lifetime_end = - 1, flags = 0\<rparr>"
  have "\<forall>i < opcodes_size fn. opcode_is_jump (opcodes fn ! i) \<longrightarrow>
             0 \<le> ref_id (operand_target (opcodes fn ! i))
           \<and> ref_id (operand_target (opcodes fn ! i)) < int (length ?infos0)"
    using wf by (auto simp: well_formed_def opcodes_size_def)
  from generate_label_data_total [OF this] obtain infos1 where
    p1: "generate_label_data (opcodes fn) (opcodes_size fn) ?infos0 = Some infos1" ..
  let ?a0 = "\<lparr>infos = build_previous_label infos1 0 (- 1), variables = ?vars0\<rparr>"
  from generate_label_data_length [OF p1] have len: "length infos1 = opcodes_size fn" by simp
  then have ok: "analysis_ok fn ?a0"
    by (simp add: analysis_ok_def build_previous_label_chain_ok build_previous_label_length
        initial_variable_ok)
  from mem have "\<forall>j < length ?infos0. jump_from (?infos0 ! j) < int (opcodes_size fn)"
    by (simp add: memory_in_range_def)
  from generate_label_data_bound [OF p1 this] len
  have "\<forall>j < opcodes_size fn. jump_from (infos1 ! j) < int (opcodes_size fn)" by simp
  with len have "jumps_in_range (infos ?a0)"
    by (simp add: jumps_in_range_def build_previous_label_length build_previous_label_jump_from)
  from calculate_lifetimes_total [OF ok this wf, of 0] p1 show ?thesis
    by (simp add: analyse_function_def Let_def)
qed

text \<open>
  Claim C10. Whenever the analysis of a function returns, with any content of the fresh
  \<open>infos\<close> array, every variable that is the primary_1 or the primary_2 operand of an
  opcode is a variable of the function and is flagged ETERNAL, whatever the operand's
  flags are: \<open>operand_is_variable_address_load\<close> holds of every variable operand. The
  analysis returns for every well-formed function.
\<close>

theorem primary_operands_eternal:
  "(\<forall>a i. analyse_function fn uninit = Some a \<and> i < opcodes_size fn \<longrightarrow>
      (operand_is_variable (operand_primary_1 (opcodes fn ! i)) \<longrightarrow>
         0 \<le> ref_id (operand_primary_1 (opcodes fn ! i))
       \<and> ref_id (operand_primary_1 (opcodes fn ! i)) < int (variables_size fn)
       \<and> flags (variables a ! nat (ref_id (operand_primary_1 (opcodes fn ! i))))
           AND VARIABLE_INFO_ETERNAL \<noteq> 0)
    \<and> (operand_is_variable (operand_primary_2 (opcodes fn ! i)) \<longrightarrow>
         0 \<le> ref_id (operand_primary_2 (opcodes fn ! i))
       \<and> ref_id (operand_primary_2 (opcodes fn ! i)) < int (variables_size fn)
       \<and> flags (variables a ! nat (ref_id (operand_primary_2 (opcodes fn ! i))))
           AND VARIABLE_INFO_ETERNAL \<noteq> 0))
   \<and> (well_formed fn \<and> memory_in_range fn uninit \<longrightarrow>
        (\<exists>a. analyse_function fn uninit = Some a))"
proof (intro conjI allI impI)
  fix a i
  assume h: "analyse_function fn uninit = Some a \<and> i < opcodes_size fn"
  from analyse_function_inv [of fn uninit a] h
  have inv: "lifetime_inv fn (opcodes_size fn) a" by simp
  {
    assume "operand_is_variable (operand_primary_1 (opcodes fn ! i))"
    with inv h show "0 \<le> ref_id (operand_primary_1 (opcodes fn ! i))"
      and "ref_id (operand_primary_1 (opcodes fn ! i)) < int (variables_size fn)"
      and "flags (variables a ! nat (ref_id (operand_primary_1 (opcodes fn ! i))))
           AND VARIABLE_INFO_ETERNAL \<noteq> 0"
      using lifetime_inv_primary_1 [of fn "opcodes_size fn" a i] by (simp_all add: is_eternal_def)
  next
    assume "operand_is_variable (operand_primary_2 (opcodes fn ! i))"
    with inv h show "0 \<le> ref_id (operand_primary_2 (opcodes fn ! i))"
      and "ref_id (operand_primary_2 (opcodes fn ! i)) < int (variables_size fn)"
      and "flags (variables a ! nat (ref_id (operand_primary_2 (opcodes fn ! i))))
           AND VARIABLE_INFO_ETERNAL \<noteq> 0"
      using lifetime_inv_primary_2 [of fn "opcodes_size fn" a i] by (simp_all add: is_eternal_def)
  }
next
  assume "well_formed fn \<and> memory_in_range fn uninit"
  then show "\<exists>a. analyse_function fn uninit = Some a"
    using analyse_function_total by blast
qed

text \<open>
  Claim C9. Whenever the analysis returns, for every variable that is not flagged ETERNAL:
  \<open>lifetime_start = - 1\<close> holds exactly when no opcode of the function visits the
  variable in the third loop, and otherwise
  \<open>0 \<le> lifetime_start \<le> lifetime_end \<le> number of opcodes\<close>. The analysis returns for
  every well-formed function.
\<close>

theorem lifetime_monotonicity:
  "(\<forall>a v. analyse_function fn uninit = Some a \<and> v < variables_size fn
        \<and> flags (variables a ! v) AND VARIABLE_INFO_ETERNAL = 0 \<longrightarrow>
      ((lifetime_start (variables a ! v) = - 1) =
         (\<forall>i < opcodes_size fn. \<not> visits (opcodes fn ! i) (int v)))
    \<and> (lifetime_start (variables a ! v) \<noteq> - 1 \<longrightarrow>
         0 \<le> lifetime_start (variables a ! v)
       \<and> lifetime_start (variables a ! v) \<le> lifetime_end (variables a ! v)
       \<and> lifetime_end (variables a ! v) \<le> int (opcodes_size fn)))
   \<and> (well_formed fn \<and> memory_in_range fn uninit \<longrightarrow>
        (\<exists>a. analyse_function fn uninit = Some a))"
proof (intro conjI allI impI)
  fix a v
  assume h: "analyse_function fn uninit = Some a \<and> v < variables_size fn
        \<and> flags (variables a ! v) AND VARIABLE_INFO_ETERNAL = 0"
  from analyse_function_inv [of fn uninit a] h
  have inv: "lifetime_inv fn (opcodes_size fn) a" by simp
  from h have ne: "\<not> is_eternal (variables a ! v)" by (simp add: is_eternal_def)
  from h ne lifetime_inv_start [OF inv, of v]
  show "(lifetime_start (variables a ! v) = - 1) =
         (\<forall>i < opcodes_size fn. \<not> visits (opcodes fn ! i) (int v))"
    by simp
  from inv h have ok: "variable_ok (infos a) (variables a ! v)" "length (infos a) = opcodes_size fn"
    by (simp_all add: lifetime_inv_def analysis_ok_def)
  {
    assume "lifetime_start (variables a ! v) \<noteq> - 1"
    with ok show "0 \<le> lifetime_start (variables a ! v)"
      and "lifetime_start (variables a ! v) \<le> lifetime_end (variables a ! v)"
      and "lifetime_end (variables a ! v) \<le> int (opcodes_size fn)"
      by (auto simp: variable_ok_def)
  }
next
  assume "well_formed fn \<and> memory_in_range fn uninit"
  then show "\<exists>a. analyse_function fn uninit = Some a"
    using analyse_function_total by blast
qed

text \<open>
  Claim C8, as the code has it. Whenever the analysis returns, for every variable \<open>V\<close>
  that is not flagged ETERNAL and every index \<open>j\<close> with
  \<open>lifetime_start(V) < j < lifetime_end(V)\<close>: \<open>j\<close> is an instruction of the function
  and \<open>infos[j].jump_from < lifetime_end(V)\<close>, so the latest jump to an instruction
  inside the lifetime, after its first instruction, comes from inside the lifetime. The
  analysis returns for every well-formed function.
\<close>

theorem jump_closure:
  "(\<forall>a v j. analyse_function fn uninit = Some a \<and> v < variables_size fn
        \<and> flags (variables a ! v) AND VARIABLE_INFO_ETERNAL = 0
        \<and> lifetime_start (variables a ! v) < int j \<and> int j < lifetime_end (variables a ! v) \<longrightarrow>
      j < opcodes_size fn \<and> jump_from (infos a ! j) < lifetime_end (variables a ! v))
   \<and> (well_formed fn \<and> memory_in_range fn uninit \<longrightarrow>
        (\<exists>a. analyse_function fn uninit = Some a))"
proof (intro conjI allI impI)
  fix a v j
  assume h: "analyse_function fn uninit = Some a \<and> v < variables_size fn
        \<and> flags (variables a ! v) AND VARIABLE_INFO_ETERNAL = 0
        \<and> lifetime_start (variables a ! v) < int j \<and> int j < lifetime_end (variables a ! v)"
  from analyse_function_inv [of fn uninit a] h
  have inv: "lifetime_inv fn (opcodes_size fn) a" by simp
  from inv h have ok: "variable_ok (infos a) (variables a ! v)" "length (infos a) = opcodes_size fn"
    by (simp_all add: lifetime_inv_def analysis_ok_def)
  with h show "j < opcodes_size fn" by (auto simp: variable_ok_def)
  from ok h show "jump_from (infos a ! j) < lifetime_end (variables a ! v)"
    by (auto simp: variable_ok_def)
next
  assume "well_formed fn \<and> memory_in_range fn uninit"
  then show "\<exists>a. analyse_function fn uninit = Some a"
    using analyse_function_total by blast
qed

subsection \<open>The jump sources when the array is initialised\<close>

text \<open>
  When the fresh \<open>infos\<close> array happens to hold \<open>jump_from = - 1\<close> in every entry,
  the analysis leaves in \<open>jump_from\<close> of every instruction the highest index of a jump
  to it, and \<open>- 1\<close> when no jump targets it.
\<close>

lemma latest_jump_nonneg:
  "0 \<le> latest_jump ops k t \<longleftrightarrow> (\<exists>i. k \<le> i \<and> i < length ops \<and> jumps_to ops i t)"
  by (simp add: latest_jump_def)

lemma latest_jump_skip:
  assumes "\<not> jumps_to ops k t"
  shows "latest_jump ops k t = latest_jump ops (Suc k) t"
proof -
  have "(k \<le> i \<and> i < length ops \<and> jumps_to ops i t)
      = (Suc k \<le> i \<and> i < length ops \<and> jumps_to ops i t)" for i
    using assms by (cases "i = k") auto
  then have "(\<lambda>i. k \<le> i \<and> i < length ops \<and> jumps_to ops i t)
      = (\<lambda>i. Suc k \<le> i \<and> i < length ops \<and> jumps_to ops i t)" by (intro ext)
  then show ?thesis unfolding latest_jump_def by (simp only:)
qed

lemma latest_jump_later:
  assumes "0 \<le> latest_jump ops (Suc k) t"
  shows "latest_jump ops k t = latest_jump ops (Suc k) t"
proof (cases "jumps_to ops k t \<and> k < length ops")
  case False
  then have "(k \<le> i \<and> i < length ops \<and> jumps_to ops i t)
      = (Suc k \<le> i \<and> i < length ops \<and> jumps_to ops i t)" for i
    by (cases "i = k") auto
  then have "(\<lambda>i. k \<le> i \<and> i < length ops \<and> jumps_to ops i t)
      = (\<lambda>i. Suc k \<le> i \<and> i < length ops \<and> jumps_to ops i t)" by (intro ext)
  then show ?thesis unfolding latest_jump_def by (simp only:)
next
  case True
  let ?S = "{i. Suc k \<le> i \<and> i < length ops \<and> jumps_to ops i t}"
  from assms have ne: "?S \<noteq> {}" by (auto simp: latest_jump_nonneg)
  have fin: "finite ?S" by simp
  have eq: "{i. k \<le> i \<and> i < length ops \<and> jumps_to ops i t} = insert k ?S"
    using True by auto
  from Max_in [OF fin ne] have "k < Max ?S" by simp
  with fin ne have "Max (insert k ?S) = Max ?S" by (simp add: max_def)
  with eq ne True show ?thesis by (auto simp: latest_jump_def)
qed

lemma latest_jump_first:
  assumes "jumps_to ops k t" and "k < length ops" and "\<not> 0 \<le> latest_jump ops (Suc k) t"
  shows "latest_jump ops k t = int k"
proof -
  from assms(3) have "\<not> (\<exists>i. Suc k \<le> i \<and> i < length ops \<and> jumps_to ops i t)"
    by (simp add: latest_jump_nonneg)
  then have "{i. k \<le> i \<and> i < length ops \<and> jumps_to ops i t} = {k}"
    using assms(1,2) by (auto simp: Suc_le_eq)
  with assms(1,2) show ?thesis by (auto simp: latest_jump_def)
qed

lemma generate_label_data_latest:
  assumes "generate_label_data ops k infs = Some infs'" and "k \<le> length ops"
      and "\<forall>t < length infs. jump_from (infs ! t) = latest_jump ops k t"
  shows "\<forall>t < length infs'. jump_from (infs' ! t) = latest_jump ops 0 t"
  using assms
proof (induction k arbitrary: infs)
  case 0
  then show ?case by simp
next
  case (Suc k)
  from Suc.prems(2) have k: "k < length ops" "k \<le> length ops" by simp_all
  show ?case
  proof (cases "opcode_is_jump (ops ! k)")
    case False
    with Suc.prems(1) have rec: "generate_label_data ops k infs = Some infs'" by simp
    from False have "\<And>t. \<not> jumps_to ops k t" by (simp add: jumps_to_def)
    with Suc.prems(3) have "\<forall>t < length infs. jump_from (infs ! t) = latest_jump ops k t"
      by (simp add: latest_jump_skip)
    from Suc.IH [OF rec k(2) this] show ?thesis .
  next
    case True
    let ?l = "ref_id (operand_target (ops ! k))"
    from True Suc.prems(1) have rng: "0 \<le> ?l" "?l < int (length infs)"
      by (auto simp: Let_def split: if_splits)
    then have l: "nat ?l < length infs" by simp
    from True rng have J: "jumps_to ops k t \<longleftrightarrow> t = nat ?l" for t
      by (auto simp: jumps_to_def)
    show ?thesis
    proof (cases "jump_from (infs ! nat ?l) \<ge> 0")
      case set: True
      with True rng Suc.prems(1) have rec: "generate_label_data ops k infs = Some infs'"
        by (simp add: Let_def)
      have "jump_from (infs ! t) = latest_jump ops k t" if "t < length infs" for t
      proof (cases "t = nat ?l")
        case True
        with set Suc.prems(3) l have "0 \<le> latest_jump ops (Suc k) t" by simp
        from latest_jump_later [OF this] Suc.prems(3) that show ?thesis by simp
      next
        case False
        with J have "\<not> jumps_to ops k t" by simp
        from latest_jump_skip [OF this] Suc.prems(3) that show ?thesis by simp
      qed
      then have "\<forall>t < length infs. jump_from (infs ! t) = latest_jump ops k t" by simp
      from Suc.IH [OF rec k(2) this] show ?thesis .
    next
      case unset: False
      let ?infs1 = "infs[nat ?l := (infs ! nat ?l)\<lparr>jump_from := int k\<rparr>]"
      from unset True rng Suc.prems(1) have rec: "generate_label_data ops k ?infs1 = Some infs'"
        by (simp add: Let_def)
      have "jump_from (?infs1 ! t) = latest_jump ops k t" if "t < length ?infs1" for t
      proof (cases "t = nat ?l")
        case True
        with unset Suc.prems(3) l have "\<not> 0 \<le> latest_jump ops (Suc k) t" by simp
        from latest_jump_first [OF _ k(1) this] J True l show ?thesis by simp
      next
        case False
        with J have "\<not> jumps_to ops k t" by simp
        from latest_jump_skip [OF this] Suc.prems(3) that False show ?thesis by simp
      qed
      then have "\<forall>t < length ?infs1. jump_from (?infs1 ! t) = latest_jump ops k t" by simp
      from Suc.IH [OF rec k(2) this] show ?thesis .
    qed
  qed
qed

lemma latest_jump_none: "latest_jump ops (length ops) t = - 1"
  by (simp add: latest_jump_def)

lemma jump_from_initialised:
  assumes run: "analyse_function fn uninit = Some a"
      and init: "\<forall>i < opcodes_size fn. jump_from (uninit i) = - 1"
      and t: "t < opcodes_size fn"
  shows "jump_from (infos a ! t) = latest_jump (opcodes fn) 0 t"
proof -
  let ?infos0 = "map uninit [0..<opcodes_size fn]"
  let ?vars0 = "replicate (variables_size fn) \<lparr>lifetime_start = - 1, lifetime_end = - 1, flags = 0\<rparr>"
  from run obtain infos1 where
    p1: "generate_label_data (opcodes fn) (opcodes_size fn) ?infos0 = Some infos1"
    and p3: "calculate_lifetimes fn 0
               \<lparr>infos = build_previous_label infos1 0 (- 1), variables = ?vars0\<rparr> = Some a"
    by (auto simp: analyse_function_def Let_def split: option.splits)
  let ?a0 = "\<lparr>infos = build_previous_label infos1 0 (- 1), variables = ?vars0\<rparr>"
  from generate_label_data_length [OF p1] have len: "length infos1 = opcodes_size fn" by simp
  then have ok: "analysis_ok fn ?a0"
    by (simp add: analysis_ok_def build_previous_label_chain_ok build_previous_label_length
        initial_variable_ok)
  then have "lifetime_inv fn 0 ?a0"
    by (simp add: lifetime_inv_def initial_not_eternal)
  from calculate_lifetimes_inv [OF p3 this] have same: "infos a = build_previous_label infos1 0 (- 1)"
    by simp
  from init have "\<forall>t < length ?infos0. jump_from (?infos0 ! t)
      = latest_jump (opcodes fn) (opcodes_size fn) t"
    by (simp add: opcodes_size_def latest_jump_none)
  from generate_label_data_latest [OF p1 _ this] t len
  have "jump_from (infos1 ! t) = latest_jump (opcodes fn) 0 t"
    by (simp add: opcodes_size_def)
  with same show ?thesis by (simp add: build_previous_label_jump_from)
qed

subsection \<open>The example functions\<close>

lemmas example_defs =
  well_formed_def memory_in_range_def counting_loop_def forward_jump_function_def
  backward_jump_function_def restart_function_def copy_opcode_def goto_opcode_def nop_opcode_def
  opcode_is_jump_def operand_is_variable_def var_operand_def imm_operand_def opcodes_size_def
  infos_minus_one_def infos_zeroed_def OPCODE_GOTO_BASE_def OPCODE_COPY_def OPCODE_NOP_def
  OPCODE_ADD_def OPCODE_RETURN_def OPCODE_GOTO_COND_def COMPARISON_EQUAL_def
  OPERAND_INFO_TYPE_VARIABLE_def OPERAND_INFO_TYPE_IMMEDIATE_def

lemma counting_loop_well_formed:
  "well_formed counting_loop" "memory_in_range counting_loop infos_minus_one"
  "memory_in_range counting_loop infos_zeroed"
  by (simp_all add: example_defs)

lemma backward_jump_well_formed:
  "well_formed backward_jump_function"
  "memory_in_range backward_jump_function infos_minus_one"
  by (simp_all add: example_defs)

lemma forward_jump_well_formed:
  "well_formed forward_jump_function"
  "memory_in_range forward_jump_function infos_minus_one"
  by (simp_all add: example_defs)

lemma counting_loop_run:
  "analyse_function counting_loop infos_minus_one = Some counting_loop_analysis"
  by code_simp

lemma backward_jump_run:
  "analyse_function backward_jump_function infos_minus_one = Some backward_jump_analysis"
  by code_simp

lemma forward_jump_run:
  "analyse_function forward_jump_function infos_minus_one = Some forward_jump_analysis"
  by code_simp

theorem primary_operands_eternal_witness:
  "well_formed counting_loop \<and> memory_in_range counting_loop infos_minus_one
   \<and> analyse_function counting_loop infos_minus_one = Some counting_loop_analysis
   \<and> 2 < opcodes_size counting_loop
   \<and> operand_is_variable (operand_primary_1 (opcodes counting_loop ! 2))
   \<and> ref_id (operand_primary_1 (opcodes counting_loop ! 2)) = 0
   \<and> operand_is_variable (operand_primary_2 (opcodes counting_loop ! 2))
   \<and> ref_id (operand_primary_2 (opcodes counting_loop ! 2)) = 1
   \<and> flags (variables counting_loop_analysis ! 0) AND VARIABLE_INFO_ETERNAL \<noteq> 0
   \<and> flags (variables counting_loop_analysis ! 1) AND VARIABLE_INFO_ETERNAL \<noteq> 0"
proof -
  have sz: "2 < opcodes_size counting_loop" by (simp add: example_defs)
  have v1: "operand_is_variable (operand_primary_1 (opcodes counting_loop ! 2))"
    and r1: "ref_id (operand_primary_1 (opcodes counting_loop ! 2)) = 0"
    and v2: "operand_is_variable (operand_primary_2 (opcodes counting_loop ! 2))"
    and r2: "ref_id (operand_primary_2 (opcodes counting_loop ! 2)) = 1"
    by (simp_all add: example_defs)
  from primary_operands_eternal [of counting_loop infos_minus_one] counting_loop_run sz v1 v2
  have "flags (variables counting_loop_analysis !
           nat (ref_id (operand_primary_1 (opcodes counting_loop ! 2))))
           AND VARIABLE_INFO_ETERNAL \<noteq> 0"
    and "flags (variables counting_loop_analysis !
           nat (ref_id (operand_primary_2 (opcodes counting_loop ! 2))))
           AND VARIABLE_INFO_ETERNAL \<noteq> 0"
    by blast+
  with r1 r2 have "flags (variables counting_loop_analysis ! 0) AND VARIABLE_INFO_ETERNAL \<noteq> 0"
    and "flags (variables counting_loop_analysis ! 1) AND VARIABLE_INFO_ETERNAL \<noteq> 0"
    by simp_all
  with counting_loop_well_formed(1,2) counting_loop_run sz v1 r1 v2 r2 show ?thesis by blast
qed

theorem lifetime_monotonicity_witness:
  "well_formed backward_jump_function \<and> memory_in_range backward_jump_function infos_minus_one
   \<and> analyse_function backward_jump_function infos_minus_one = Some backward_jump_analysis
   \<and> 0 < variables_size backward_jump_function
   \<and> flags (variables backward_jump_analysis ! 0) AND VARIABLE_INFO_ETERNAL = 0
   \<and> lifetime_start (variables backward_jump_analysis ! 0) = 0
   \<and> lifetime_end (variables backward_jump_analysis ! 0) = 4
   \<and> lifetime_end (variables backward_jump_analysis ! 0) \<le> int (opcodes_size backward_jump_function)"
proof -
  have v: "0 < variables_size backward_jump_function"
    by (simp add: example_defs)
  have ne: "flags (variables backward_jump_analysis ! 0) AND VARIABLE_INFO_ETERNAL = 0"
    by (simp add: backward_jump_analysis_def VARIABLE_INFO_ETERNAL_def)
  have st: "lifetime_start (variables backward_jump_analysis ! 0) = 0"
    "lifetime_end (variables backward_jump_analysis ! 0) = 4"
    by (simp_all add: backward_jump_analysis_def)
  from lifetime_monotonicity [of backward_jump_function infos_minus_one] backward_jump_run v ne st(1)
  have "lifetime_end (variables backward_jump_analysis ! 0) \<le> int (opcodes_size backward_jump_function)"
    by force
  with backward_jump_well_formed backward_jump_run v ne st show ?thesis by blast
qed

theorem jump_closure_witness:
  "well_formed backward_jump_function \<and> memory_in_range backward_jump_function infos_minus_one
   \<and> analyse_function backward_jump_function infos_minus_one = Some backward_jump_analysis
   \<and> 0 < variables_size backward_jump_function
   \<and> flags (variables backward_jump_analysis ! 0) AND VARIABLE_INFO_ETERNAL = 0
   \<and> lifetime_start (variables backward_jump_analysis ! 0) < int 1
   \<and> int 1 < lifetime_end (variables backward_jump_analysis ! 0)
   \<and> jump_from (infos backward_jump_analysis ! 1) = 3
   \<and> jump_from (infos backward_jump_analysis ! 1) < lifetime_end (variables backward_jump_analysis ! 0)"
proof -
  have v: "0 < variables_size backward_jump_function"
    by (simp add: example_defs)
  have ne: "flags (variables backward_jump_analysis ! 0) AND VARIABLE_INFO_ETERNAL = 0"
    by (simp add: backward_jump_analysis_def VARIABLE_INFO_ETERNAL_def)
  have st: "lifetime_start (variables backward_jump_analysis ! 0) < int 1"
    "int 1 < lifetime_end (variables backward_jump_analysis ! 0)"
    "jump_from (infos backward_jump_analysis ! 1) = 3"
    by (simp_all add: backward_jump_analysis_def)
  from jump_closure [of backward_jump_function infos_minus_one] backward_jump_run v ne st(1,2)
  have "jump_from (infos backward_jump_analysis ! 1) < lifetime_end (variables backward_jump_analysis ! 0)"
    by blast
  with backward_jump_well_formed backward_jump_run v ne st show ?thesis by blast
qed

text \<open>
  Claim C8 as it is stated fails on a jump that leaves the lifetime forwards: in
  \<open>forward_jump_function\<close>, which is well-formed, the variable \<open>v0\<close> is not ETERNAL and
  lives in \<open>[0, 3)\<close>; the instruction 4 is jumped to from 1, inside the lifetime, and
  4 is not below the end of the lifetime.
\<close>

theorem jump_closure_counterexample:
  "well_formed forward_jump_function \<and> memory_in_range forward_jump_function infos_minus_one
   \<and> analyse_function forward_jump_function infos_minus_one = Some forward_jump_analysis
   \<and> flags (variables forward_jump_analysis ! 0) AND VARIABLE_INFO_ETERNAL = 0
   \<and> lifetime_start (variables forward_jump_analysis ! 0) = 0
   \<and> lifetime_end (variables forward_jump_analysis ! 0) = 3
   \<and> jump_from (infos forward_jump_analysis ! 4) = 1
   \<and> lifetime_start (variables forward_jump_analysis ! 0) \<le> jump_from (infos forward_jump_analysis ! 4)
   \<and> jump_from (infos forward_jump_analysis ! 4) < lifetime_end (variables forward_jump_analysis ! 0)
   \<and> \<not> 4 < lifetime_end (variables forward_jump_analysis ! 0)"
  using forward_jump_well_formed forward_jump_run
  by (simp add: forward_jump_analysis_def VARIABLE_INFO_ETERNAL_def)

text \<open>
  The first instruction of a lifetime is left out of the scan for jumps: a jump back to
  the first assignment of a variable does not extend its lifetime.
\<close>

lemma restart_function_lifetime:
  "analyse_function restart_function infos_minus_one =
     Some \<lparr>infos = [\<lparr>previous_label = - 1, jump_from = 1\<rparr>, \<lparr>previous_label = 0, jump_from = - 1\<rparr>],
           variables = [\<lparr>lifetime_start = 0, lifetime_end = 1, flags = 2\<rparr>]\<rparr>"
  by code_simp

text \<open>
  Claim C1 fails on the code. With the \<open>infos\<close> array holding \<open>- 1\<close> everywhere, as the
  first loop expects, the analysis of the function of six opcodes leaves \<open>v0\<close> with the
  lifetime \<open>[0, 5)\<close> and \<open>v1\<close> with \<open>[1, 2)\<close>, and both flagged ETERNAL (flags 4 and
  6): the reads of \<open>v0\<close> and \<open>v1\<close> in the primary operands of the \<open>ADD\<close> take the
  address-load branch and never extend a lifetime.
\<close>

theorem counting_loop_lifetimes:
  "analyse_function counting_loop infos_minus_one =
     Some \<lparr>infos = [\<lparr>previous_label = - 1, jump_from = - 1\<rparr>,
                    \<lparr>previous_label = - 1, jump_from = - 1\<rparr>,
                    \<lparr>previous_label = - 1, jump_from = 4\<rparr>,
                    \<lparr>previous_label = 2, jump_from = - 1\<rparr>,
                    \<lparr>previous_label = 2, jump_from = - 1\<rparr>,
                    \<lparr>previous_label = 2, jump_from = 3\<rparr>],
           variables = [\<lparr>lifetime_start = 0, lifetime_end = 5, flags = 4\<rparr>,
                        \<lparr>lifetime_start = 1, lifetime_end = 2, flags = 6\<rparr>]\<rparr>
   \<and> (4 :: 32 word) AND VARIABLE_INFO_ETERNAL \<noteq> 0
   \<and> (6 :: 32 word) AND VARIABLE_INFO_ETERNAL \<noteq> 0"
  using counting_loop_run
  by (simp add: counting_loop_analysis_def VARIABLE_INFO_ETERNAL_def)

text \<open>
  The two flags do not depend on the content of the \<open>infos\<close> array: whenever the
  analysis of this function returns, \<open>v0\<close> and \<open>v1\<close> are flagged ETERNAL.
\<close>

lemma counting_loop_always_eternal:
  assumes "analyse_function counting_loop uninit = Some a"
  shows "flags (variables a ! 0) AND VARIABLE_INFO_ETERNAL \<noteq> 0"
    and "flags (variables a ! 1) AND VARIABLE_INFO_ETERNAL \<noteq> 0"
proof -
  note inv = analyse_function_inv [OF assms]
  have sz: "2 < opcodes_size counting_loop" by (simp add: example_defs)
  have v1: "operand_is_variable (operand_primary_1 (opcodes counting_loop ! 2))"
    and r1: "ref_id (operand_primary_1 (opcodes counting_loop ! 2)) = 0"
    and v2: "operand_is_variable (operand_primary_2 (opcodes counting_loop ! 2))"
    and r2: "ref_id (operand_primary_2 (opcodes counting_loop ! 2)) = 1"
    by (simp_all add: example_defs)
  from lifetime_inv_primary_1(3) [OF inv sz v1] r1
  show "flags (variables a ! 0) AND VARIABLE_INFO_ETERNAL \<noteq> 0"
    by (simp add: is_eternal_def)
  from lifetime_inv_primary_2(3) [OF inv sz v2] r2
  show "flags (variables a ! 1) AND VARIABLE_INFO_ETERNAL \<noteq> 0"
    by (simp add: is_eternal_def)
qed

text \<open>
  Claim C4 fails on the code. The first loop reads \<open>jump_from\<close> before anything has
  written it. On zero-filled memory every \<open>jump_from\<close> reads as set, the loop records
  nothing, and after the analysis of the function of six opcodes every \<open>jump_from\<close> is
  0: not 4 at the instruction 2, the target of the jump at 4, not 3 at the instruction 5,
  and not \<open>- 1\<close> at the instructions that no jump targets.
\<close>

theorem jump_from_uninitialised:
  "analyse_function counting_loop infos_zeroed =
     Some \<lparr>infos = [\<lparr>previous_label = - 1, jump_from = 0\<rparr>,
                    \<lparr>previous_label = 0, jump_from = 0\<rparr>,
                    \<lparr>previous_label = 1, jump_from = 0\<rparr>,
                    \<lparr>previous_label = 2, jump_from = 0\<rparr>,
                    \<lparr>previous_label = 3, jump_from = 0\<rparr>,
                    \<lparr>previous_label = 4, jump_from = 0\<rparr>],
           variables = [\<lparr>lifetime_start = 0, lifetime_end = 3, flags = 4\<rparr>,
                        \<lparr>lifetime_start = 1, lifetime_end = 2, flags = 6\<rparr>]\<rparr>
   \<and> opcode_is_jump (opcodes counting_loop ! 4)
   \<and> ref_id (operand_target (opcodes counting_loop ! 4)) = 2"
  by code_simp

end
